theory Spec2Isabelle
  imports Main "HOL-Library.AList" "HOL-Library.Log_Nat"
begin

section \<open>Data model of the back-to-monitor extension\<close>

text \<open>
  The model follows \<^verbatim>\<open>src/extension.js\<close> (class \<^verbatim>\<open>BackToMonitorExtension\<close>).

  \<^item> A window (\<^verbatim>\<open>metaWindow\<close>) is an opaque host object compared by reference; it is
    modelled by a natural number, its identity.
  \<^item> An output name is a string; a timestamp is the integer of \<^verbatim>\<open>Date.now()\<close>.
  \<^item> A coordinate is a JavaScript number, that is an IEEE 754 double; see \<open>number\<close>.
  \<^item> A JavaScript \<^verbatim>\<open>Map\<close> is an association list in insertion order:
    \<^verbatim>\<open>get\<close> is \<^const>\<open>map_of\<close>, \<^verbatim>\<open>set\<close> is \<^const>\<open>AList.update\<close> (an existing key keeps
    its place, a new key goes last), \<^verbatim>\<open>delete\<close> is \<^const>\<open>AList.delete\<close>.
  \<^item> A JavaScript \<^verbatim>\<open>Set\<close> is a list in insertion order, see \<open>Set_add\<close>.
\<close>

type_synonym window = nat
type_synonym output_name = string
type_synonym timestamp = int

subsection \<open>JavaScript numbers\<close>

text \<open>
  The fields \<^verbatim>\<open>x\<close> and \<^verbatim>\<open>y\<close> of a state and of a rectangle are JavaScript numbers, and
  \<^verbatim>\<open>-=\<close> and \<^verbatim>\<open>+=\<close> on them are the subtraction and addition of IEEE 754 binary64:
  the exact result rounded to the nearest double, ties to the even significand. A number
  is a finite double, given by its rational value (\<open>Finite 0\<close> is \<open>+0\<close>), or \<open>-0\<close>, an
  infinity, or NaN.
\<close>

datatype number = Finite rat | NegZero | PosInfinity | NegInfinity | NaN

definition pow2 :: "int \<Rightarrow> rat" where
  "pow2 k = (if 0 \<le> k then 2 ^ nat k else 1 / 2 ^ nat (- k))"

text \<open>The exponent of the leading bit of a rational other than 0: the floor of its binary
  logarithm, from the bit lengths of numerator and denominator.\<close>

definition floorLog2 :: "rat \<Rightarrow> int" where
  "floorLog2 q =
     (case quotient_of \<bar>q\<bar> of (a, b) \<Rightarrow>
        (let d = bitlen a - bitlen b in if pow2 d \<le> \<bar>q\<bar> then d else d - 1))"

definition roundHalfEven :: "rat \<Rightarrow> int" where
  "roundHalfEven q =
     (let f = \<lfloor>q\<rfloor>; d = q - of_int f
      in if d < 1 / 2 then f else if 1 / 2 < d then f + 1 else if even f then f else f + 1)"

text \<open>
  Rounding an exact result to a double: 53 significant bits, so a unit in the last place
  of \<open>2^(e - 52)\<close> for a leading bit at \<open>2^e\<close>; the exponent of a subnormal is that of the
  least normal double, \<open>-1022\<close>; a result that rounds to \<open>2^1024\<close> or more overflows to an
  infinity, one that rounds to 0 keeps its sign.
\<close>

definition roundToDouble :: "rat \<Rightarrow> number" where
  "roundToDouble q =
     (if q = 0 then Finite 0
      else let ulp = pow2 (max (floorLog2 q) (- 1022) - 52);
               r = of_int (roundHalfEven (q / ulp)) * ulp
           in if pow2 1024 \<le> \<bar>r\<bar> then (if 0 < q then PosInfinity else NegInfinity)
              else if r = 0 then (if 0 < q then Finite 0 else NegZero)
              else Finite r)"

definition js_neg :: "number \<Rightarrow> number" where
  "js_neg a = (case a of
       Finite q \<Rightarrow> (if q = 0 then NegZero else Finite (- q))
     | NegZero \<Rightarrow> Finite 0
     | PosInfinity \<Rightarrow> NegInfinity
     | NegInfinity \<Rightarrow> PosInfinity
     | NaN \<Rightarrow> NaN)"

text \<open>\<^verbatim>\<open>a + b\<close> on numbers. The sum of two zeros is \<open>-0\<close> only when both are; an exact
  sum of 0 of two finite numbers other than zeros is \<open>+0\<close>.\<close>

fun js_add :: "number \<Rightarrow> number \<Rightarrow> number" where
  "js_add NaN b = NaN"
| "js_add a NaN = NaN"
| "js_add PosInfinity NegInfinity = NaN"
| "js_add NegInfinity PosInfinity = NaN"
| "js_add PosInfinity b = PosInfinity"
| "js_add NegInfinity b = NegInfinity"
| "js_add a PosInfinity = PosInfinity"
| "js_add a NegInfinity = NegInfinity"
| "js_add NegZero NegZero = NegZero"
| "js_add NegZero (Finite q) = Finite q"
| "js_add (Finite p) NegZero = Finite p"
| "js_add (Finite p) (Finite q) = roundToDouble (p + q)"

text \<open>\<^verbatim>\<open>a - b\<close> on numbers is \<open>a + (-b)\<close>, zeros and infinities included.\<close>

definition js_sub :: "number \<Rightarrow> number \<Rightarrow> number" where
  "js_sub a b = js_add a (js_neg b)"

text \<open>The finite numbers that are doubles: those that rounding leaves as they are.\<close>

definition isDouble :: "number \<Rightarrow> bool" where
  "isDouble a = (case a of Finite q \<Rightarrow> roundToDouble q = Finite q | _ \<Rightarrow> True)"

subsection \<open>Rectangles, states and the tracker\<close>

record monitorRect =
  rect_x :: number
  rect_y :: number
  rect_width :: number
  rect_height :: number

text \<open>The state object returned by \<^verbatim>\<open>windowSaver.save\<close>: the fields \<^verbatim>\<open>x\<close> and \<^verbatim>\<open>y\<close>
  that the extension rewrites, and the rest of the object, which it never reads.\<close>

record windowState =
  ws_x :: number
  ws_y :: number
  ws_rest :: nat

text \<open>The object \<^verbatim>\<open>{windowState, time}\<close> stored at line 103.\<close>

record savedState =
  windowState :: windowState
  time :: timestamp

type_synonym perWindowSavedStates = "(output_name \<times> savedState) list"
type_synonym windowsSavedStates = "(window \<times> perWindowSavedStates) list"
type_synonym monitorDisconnectedWindows = "(output_name \<times> window list) list"

record settings =
  rememberState :: bool
  minimize :: bool

record tracker =
  windowsSavedStates :: windowsSavedStates
  monitorDisconnectedWindows :: monitorDisconnectedWindows
  settings :: settings

datatype error = CaptureError | RestoreError

text \<open>
  What a handler needs from the host at the moment of an event: the windows of
  \<^verbatim>\<open>global.display.list_windows(0)\<close>, the four functions of \<^verbatim>\<open>windowSaver\<close> and
  \<^verbatim>\<open>metaWindow.can_minimize()\<close>. \<^verbatim>\<open>save\<close> and \<^verbatim>\<open>restore\<close> may throw; a throw is \<open>Inl\<close>.
\<close>

record host =
  list_windows :: "window list"
  isInside :: "window \<Rightarrow> monitorRect \<Rightarrow> bool"
  allowsMove :: "window \<Rightarrow> bool"
  save :: "window \<Rightarrow> error + windowState"
  restore :: "window \<Rightarrow> windowState \<Rightarrow> monitorRect \<Rightarrow> error + unit"
  can_minimize :: "window \<Rightarrow> bool"

text \<open>What a handler does to the outside: the log lines and the calls that change a window.\<close>

datatype effect =
    Log_RememberState bool
  | Log_Minimize bool
  | Log_DontSave window output_name
  | Log_Save window output_name windowState
  | Log_Restore window output_name windowState
  | Log_Error error
  | Restore_call window windowState monitorRect
  | Minimize_call window

subsection \<open>Sets and the safe call\<close>

definition Set_add :: "'a \<Rightarrow> 'a list \<Rightarrow> 'a list" where
  "Set_add v xs = (if v \<in> set xs then xs else xs @ [v])"

definition Set_delete :: "'a \<Rightarrow> 'a list \<Rightarrow> 'a list" where
  "Set_delete v xs = removeAll v xs"

text \<open>
  Modelled from the spec: \<^verbatim>\<open>callSafely\<close> of \<^verbatim>\<open>src/utils\<close> is not among the source files.
  The spec says that an error thrown by the wrapped call is caught and logged and that
  the call then counts as not having happened; the caller at line 85 tests the returned
  value, so a caught error returns no value.
\<close>

definition callSafely :: "error + 'a \<Rightarrow> 'a option \<times> effect list" where
  "callSafely r = (case r of Inl e \<Rightarrow> (None, [Log_Error e]) | Inr v \<Rightarrow> (Some v, []))"

subsection \<open>Coordinate transformations\<close>

text \<open>Lines 87-88: \<^verbatim>\<open>windowState.x -= monitorRect.x; windowState.y -= monitorRect.y\<close>.\<close>

definition toRelative :: "monitorRect \<Rightarrow> windowState \<Rightarrow> windowState" where
  "toRelative monitorRect ws =
     ws\<lparr>ws_x := js_sub (ws_x ws) (rect_x monitorRect),
        ws_y := js_sub (ws_y ws) (rect_y monitorRect)\<rparr>"

text \<open>Lines 145-146: \<^verbatim>\<open>windowState.x += monitorRect.x; windowState.y += monitorRect.y\<close>.\<close>

definition toAbsolute :: "monitorRect \<Rightarrow> windowState \<Rightarrow> windowState" where
  "toAbsolute monitorRect ws =
     ws\<lparr>ws_x := js_add (ws_x ws) (rect_x monitorRect),
        ws_y := js_add (ws_y ws) (rect_y monitorRect)\<rparr>"

section \<open>The handlers\<close>

subsection \<open>enable\<close>

text \<open>Lines 14-23: both maps start empty; the settings object is bound to the stored
  settings, which are a parameter here.\<close>

definition enable :: "settings \<Rightarrow> tracker" where
  "enable stored =
     \<lparr>windowsSavedStates = [], monitorDisconnectedWindows = [], settings = stored\<rparr>"

subsection \<open>Settings callbacks\<close>

text \<open>Lines 59-66. The callback runs after the bound field has its new value.\<close>

definition onRememberStateChange :: "tracker \<Rightarrow> tracker \<times> effect list" where
  "onRememberStateChange s =
     (if \<not> rememberState (settings s)
      then (s\<lparr>windowsSavedStates := []\<rparr>, [Log_RememberState False])
      else (s, [Log_RememberState True]))"

definition setRememberState :: "bool \<Rightarrow> tracker \<Rightarrow> tracker \<times> effect list" where
  "setRememberState v s =
     onRememberStateChange (s\<lparr>settings := (settings s)\<lparr>rememberState := v\<rparr>\<rparr>)"

text \<open>Lines 68-70.\<close>

definition onMinimizeChange :: "tracker \<Rightarrow> tracker \<times> effect list" where
  "onMinimizeChange s = (s, [Log_Minimize (minimize (settings s))])"

definition setMinimize :: "bool \<Rightarrow> tracker \<Rightarrow> tracker \<times> effect list" where
  "setMinimize v s = onMinimizeChange (s\<lparr>settings := (settings s)\<lparr>minimize := v\<rparr>\<rparr>)"

subsection \<open>output-disconnected\<close>

text \<open>
  Lines 91-104, on the map \<^verbatim>\<open>_windowsSavedStates\<close>: the inner map of the window is fetched,
  or created and stored when the window has none; a state is stored under the output's
  name unless the inner map has one already.
\<close>

definition recordState ::
  "output_name \<Rightarrow> timestamp \<Rightarrow> window \<Rightarrow> windowState \<Rightarrow> windowsSavedStates
    \<Rightarrow> windowsSavedStates \<times> effect list" where
  "recordState outputName t metaWindow ws wss =
     (let (wss1, savedStates) =
            (case map_of wss metaWindow of
               None \<Rightarrow> (AList.update metaWindow [] wss, [])
             | Some m \<Rightarrow> (wss, m))
      in if map_of savedStates outputName \<noteq> None
         then (wss1, [Log_DontSave metaWindow outputName])
         else (AList.update metaWindow
                 (AList.update outputName \<lparr>windowState = ws, time = t\<rparr> savedStates) wss1,
               [Log_Save metaWindow outputName ws]))"

text \<open>Lines 83-106: the guarded capture of one window.\<close>

definition rememberWindow ::
  "host \<Rightarrow> output_name \<Rightarrow> monitorRect \<Rightarrow> timestamp \<Rightarrow> window \<Rightarrow> tracker
    \<Rightarrow> tracker \<times> effect list" where
  "rememberWindow h outputName monitorRect t metaWindow s =
     (if rememberState (settings s) \<and> allowsMove h metaWindow
      then (case callSafely (save h metaWindow) of
              (None, fx) \<Rightarrow> (s, fx)
            | (Some ws, fx) \<Rightarrow>
                (let (wss, fx') = recordState outputName t metaWindow
                                    (toRelative monitorRect ws) (windowsSavedStates s)
                 in (s\<lparr>windowsSavedStates := wss\<rparr>, fx @ fx')))
      else (s, []))"

text \<open>
  Lines 79-108: the body of the loop. The set \<^verbatim>\<open>disconnectedWindows\<close> is the object stored
  under the output's name at line 76, so adding to it changes that entry of the map.
\<close>

definition disconnectedWindow ::
  "host \<Rightarrow> output_name \<Rightarrow> monitorRect \<Rightarrow> timestamp \<Rightarrow> window \<Rightarrow> tracker
    \<Rightarrow> tracker \<times> effect list" where
  "disconnectedWindow h outputName monitorRect t metaWindow s =
     (if \<not> isInside h metaWindow monitorRect then (s, [])
      else (let (s1, fx) = rememberWindow h outputName monitorRect t metaWindow s
            in (s1\<lparr>monitorDisconnectedWindows :=
                      AList.map_entry outputName (Set_add metaWindow)
                        (monitorDisconnectedWindows s1)\<rparr>, fx)))"

fun disconnectedLoop ::
  "host \<Rightarrow> output_name \<Rightarrow> monitorRect \<Rightarrow> timestamp \<Rightarrow> window list \<Rightarrow> tracker
    \<Rightarrow> tracker \<times> effect list" where
  "disconnectedLoop h outputName monitorRect t [] s = (s, [])"
| "disconnectedLoop h outputName monitorRect t (metaWindow # rest) s =
     (let (s1, fx1) = disconnectedWindow h outputName monitorRect t metaWindow s;
          (s2, fx2) = disconnectedLoop h outputName monitorRect t rest s1
      in (s2, fx1 @ fx2))"

text \<open>Lines 72-110. The time of line 73 is the parameter \<open>t\<close>.\<close>

definition onOutputDisconnected ::
  "host \<Rightarrow> output_name \<Rightarrow> monitorRect \<Rightarrow> timestamp \<Rightarrow> tracker \<Rightarrow> tracker \<times> effect list" where
  "onOutputDisconnected h outputName monitorRect t s =
     disconnectedLoop h outputName monitorRect t (list_windows h)
       (s\<lparr>monitorDisconnectedWindows :=
            AList.update outputName [] (monitorDisconnectedWindows s)\<rparr>)"

subsection \<open>output-connected\<close>

text \<open>Lines 112-114.\<close>

definition onOutputConnected :: "output_name \<Rightarrow> monitorRect \<Rightarrow> tracker \<Rightarrow> tracker" where
  "onOutputConnected outputName monitorRect s =
     s\<lparr>monitorDisconnectedWindows := AList.delete outputName (monitorDisconnectedWindows s)\<rparr>"

subsection \<open>monitor-unloaded\<close>

text \<open>Lines 121-125: the loop over the set that was removed from the map.\<close>

fun minimizeLoop :: "host \<Rightarrow> bool \<Rightarrow> window list \<Rightarrow> effect list" where
  "minimizeLoop h m [] = []"
| "minimizeLoop h m (metaWindow # rest) =
     (if m \<and> can_minimize h metaWindow then [Minimize_call metaWindow] else [])
       @ minimizeLoop h m rest"

text \<open>Lines 116-127.\<close>

definition onMonitorUnloaded ::
  "host \<Rightarrow> output_name \<Rightarrow> monitorRect \<Rightarrow> tracker \<Rightarrow> tracker \<times> effect list" where
  "onMonitorUnloaded h outputName monitorRect s =
     (case map_of (monitorDisconnectedWindows s) outputName of
        None \<Rightarrow> (s, [])
      | Some disconnectedWindows \<Rightarrow>
          (s\<lparr>monitorDisconnectedWindows :=
               AList.delete outputName (monitorDisconnectedWindows s)\<rparr>,
           minimizeLoop h (minimize (settings s)) disconnectedWindows))"

subsection \<open>monitor-loaded\<close>

text \<open>
  Lines 134-141 on one inner map: the entry of the output is deleted, then every
  remaining entry whose time is not before the deleted entry's time. Deleting the entry
  under the cursor of a \<^verbatim>\<open>Map\<close> iteration does not disturb the iteration, so the loop is a
  filter.
\<close>

definition forgetStates :: "output_name \<Rightarrow> savedState \<Rightarrow> perWindowSavedStates \<Rightarrow> perWindowSavedStates" where
  "forgetStates outputName state savedStates =
     filter (\<lambda>(k, otherState). \<not> (time otherState \<ge> time state))
       (AList.delete outputName savedStates)"

text \<open>Lines 131-151: the body of the loop, for one entry of \<^verbatim>\<open>_windowsSavedStates\<close>.\<close>

definition loadedWindow ::
  "host \<Rightarrow> output_name \<Rightarrow> monitorRect \<Rightarrow> window \<times> perWindowSavedStates
    \<Rightarrow> (window \<times> perWindowSavedStates) \<times> effect list" where
  "loadedWindow h outputName monitorRect entry =
     (case entry of (metaWindow, savedStates) \<Rightarrow>
        (case map_of savedStates outputName of
           None \<Rightarrow> ((metaWindow, savedStates), [])
         | Some state \<Rightarrow>
             (let ws = toAbsolute monitorRect (windowState state)
              in ((metaWindow, forgetStates outputName state savedStates),
                  [Log_Restore metaWindow outputName ws, Restore_call metaWindow ws monitorRect]
                    @ snd (callSafely (restore h metaWindow ws monitorRect))))))"

fun loadedLoop ::
  "host \<Rightarrow> output_name \<Rightarrow> monitorRect \<Rightarrow> windowsSavedStates \<Rightarrow> windowsSavedStates \<times> effect list" where
  "loadedLoop h outputName monitorRect [] = ([], [])"
| "loadedLoop h outputName monitorRect (entry # rest) =
     (let (entry1, fx1) = loadedWindow h outputName monitorRect entry;
          (rest1, fx2) = loadedLoop h outputName monitorRect rest
      in (entry1 # rest1, fx1 @ fx2))"

text \<open>Lines 129-153.\<close>

definition onMonitorLoaded ::
  "host \<Rightarrow> output_name \<Rightarrow> monitorRect \<Rightarrow> tracker \<Rightarrow> tracker \<times> effect list" where
  "onMonitorLoaded h outputName monitorRect s =
     (let (wss, fx) = loadedLoop h outputName monitorRect (windowsSavedStates s)
      in (s\<lparr>windowsSavedStates := wss\<rparr>, fx))"

subsection \<open>window-removed\<close>

text \<open>Lines 155-161.\<close>

definition onWindowRemoved :: "window \<Rightarrow> tracker \<Rightarrow> tracker" where
  "onWindowRemoved metaWindow s =
     s\<lparr>windowsSavedStates := AList.delete metaWindow (windowsSavedStates s),
       monitorDisconnectedWindows :=
         map (\<lambda>(k, disconnectedWindows). (k, Set_delete metaWindow disconnectedWindows))
           (monitorDisconnectedWindows s)\<rparr>"

section \<open>Observations of a tracker state\<close>

text \<open>The pending saved state of a window for an output:
  \<^verbatim>\<open>_windowsSavedStates.get(metaWindow)?.get(outputName)\<close>.\<close>

definition pendingState :: "tracker \<Rightarrow> window \<Rightarrow> output_name \<Rightarrow> savedState option" where
  "pendingState s metaWindow outputName =
     (case map_of (windowsSavedStates s) metaWindow of
        None \<Rightarrow> None
      | Some savedStates \<Rightarrow> map_of savedStates outputName)"

text \<open>The members of the stranded set of an output, when the output has one.\<close>

definition stranded :: "tracker \<Rightarrow> output_name \<Rightarrow> window set option" where
  "stranded s outputName = map_option set (map_of (monitorDisconnectedWindows s) outputName)"

text \<open>The calls of \<^verbatim>\<open>windowSaver.restore\<close> and of \<^verbatim>\<open>metaWindow.minimize\<close> among the effects
  of a handler, in the order they were made.\<close>

definition restoreCalls :: "effect list \<Rightarrow> (window \<times> windowState \<times> monitorRect) list" where
  "restoreCalls fx =
     concat (map (\<lambda>e. case e of Restore_call w ws r \<Rightarrow> [(w, ws, r)] | _ \<Rightarrow> []) fx)"

definition minimizeCalls :: "effect list \<Rightarrow> window list" where
  "minimizeCalls fx = concat (map (\<lambda>e. case e of Minimize_call w \<Rightarrow> [w] | _ \<Rightarrow> []) fx)"

text \<open>The state that the disconnect handler of an output at \<open>monitorRect\<close> captures for a
  window, when it captures one: the window is inside, remembering is enabled, the window
  may be moved and \<^verbatim>\<open>save\<close> returns.\<close>

definition captured :: "host \<Rightarrow> tracker \<Rightarrow> monitorRect \<Rightarrow> window \<Rightarrow> windowState option" where
  "captured h s monitorRect metaWindow =
     (if isInside h metaWindow monitorRect \<and> rememberState (settings s) \<and> allowsMove h metaWindow
      then (case save h metaWindow of Inl e \<Rightarrow> None | Inr ws \<Rightarrow> Some (toRelative monitorRect ws))
      else None)"

text \<open>No window of \<^verbatim>\<open>_windowsSavedStates\<close> has an empty inner map.\<close>

definition pendingNonempty :: "tracker \<Rightarrow> bool" where
  "pendingNonempty s =
     list_all (\<lambda>(metaWindow, savedStates). savedStates \<noteq> []) (windowsSavedStates s)"

text \<open>The keys of a \<^verbatim>\<open>Map\<close> are distinct; the association lists of a state keep that.\<close>

definition keysDistinct :: "tracker \<Rightarrow> bool" where
  "keysDistinct s =
     (distinct (map fst (windowsSavedStates s)) \<and>
      list_all (\<lambda>(metaWindow, savedStates). distinct (map fst savedStates))
        (windowsSavedStates s))"

text \<open>The states the extension can be in: \<^verbatim>\<open>enable\<close>, then any sequence of events.\<close>

inductive reachable :: "tracker \<Rightarrow> bool" where
  r_enable: "reachable (enable stored)"
| r_disconnected: "reachable s \<Longrightarrow> reachable (fst (onOutputDisconnected h outputName monitorRect t s))"
| r_connected: "reachable s \<Longrightarrow> reachable (onOutputConnected outputName monitorRect s)"
| r_unloaded: "reachable s \<Longrightarrow> reachable (fst (onMonitorUnloaded h outputName monitorRect s))"
| r_loaded: "reachable s \<Longrightarrow> reachable (fst (onMonitorLoaded h outputName monitorRect s))"
| r_removed: "reachable s \<Longrightarrow> reachable (onWindowRemoved metaWindow s)"
| r_rememberState: "reachable s \<Longrightarrow> reachable (fst (setRememberState v s))"
| r_minimize: "reachable s \<Longrightarrow> reachable (fst (setMinimize v s))"

section \<open>Sample hosts\<close>

text \<open>
  A desktop for the concrete scenarios: each listed window has a position in whole pixels,
  is inside a rectangle when its position is, and may be moved and minimized; saving a
  window gives its position; saving or restoring a window of the list \<open>broken\<close> throws.
\<close>

definition insideRect :: "rat \<Rightarrow> rat \<Rightarrow> monitorRect \<Rightarrow> bool" where
  "insideRect px py r =
     (case (rect_x r, rect_y r, rect_width r, rect_height r) of
        (Finite rx, Finite ry, Finite rw, Finite rh) \<Rightarrow>
          rx \<le> px \<and> px < rx + rw \<and> ry \<le> py \<and> py < ry + rh
      | _ \<Rightarrow> False)"

definition sampleHost :: "(window \<times> int \<times> int) list \<Rightarrow> window list \<Rightarrow> host" where
  "sampleHost positions broken =
     \<lparr>list_windows = map fst positions,
      isInside = (\<lambda>w r. case map_of positions w of
                          None \<Rightarrow> False
                        | Some (px, py) \<Rightarrow> insideRect (of_int px) (of_int py) r),
      allowsMove = (\<lambda>w. True),
      save = (\<lambda>w. case map_of positions w of
                     None \<Rightarrow> Inl CaptureError
                   | Some (px, py) \<Rightarrow>
                       if w \<in> set broken then Inl CaptureError
                       else Inr \<lparr>ws_x = Finite (of_int px), ws_y = Finite (of_int py),
                                ws_rest = w\<rparr>),
      restore = (\<lambda>w ws r. if w \<in> set broken then Inl RestoreError else Inr ()),
      can_minimize = (\<lambda>w. True)\<rparr>"

definition rectAt :: "int \<Rightarrow> int \<Rightarrow> monitorRect" where
  "rectAt px py =
     \<lparr>rect_x = Finite (of_int px), rect_y = Finite (of_int py),
      rect_width = Finite 1920, rect_height = Finite 1080\<rparr>"

definition defaultSettings :: settings where
  "defaultSettings = \<lparr>rememberState = True, minimize = True\<rparr>"

text \<open>States reached from \<^verbatim>\<open>enable\<close> by disconnect events, for the scenarios below.\<close>

definition hdmiSaved :: tracker where
  "hdmiSaved =
     fst (onOutputDisconnected (sampleHost [(7, 100, 50)] []) ''HDMI-1'' (rectAt 0 0) 1000
            (enable defaultSettings))"

definition twoSaves :: tracker where
  "twoSaves =
     fst (onOutputDisconnected (sampleHost [(7, 100, 50)] []) ''B'' (rectAt 0 0) 2
       (fst (onOutputDisconnected (sampleHost [(7, 100, 50)] []) ''A'' (rectAt 0 0) 1
              (enable defaultSettings))))"

definition sameTimeSaves :: tracker where
  "sameTimeSaves =
     fst (onOutputDisconnected (sampleHost [(7, 100, 50)] []) ''B'' (rectAt 0 0) 5
       (fst (onOutputDisconnected (sampleHost [(7, 100, 50)] []) ''A'' (rectAt 0 0) 5
              (enable defaultSettings))))"

definition bothSaved :: tracker where
  "bothSaved =
     fst (onOutputDisconnected (sampleHost [(1, 10, 10), (2, 20, 20)] []) ''B'' (rectAt 0 0) 1
            (enable defaultSettings))"

definition strandedTwice :: tracker where
  "strandedTwice =
     fst (onOutputDisconnected (sampleHost [(7, 100, 50), (8, 200, 60)] []) ''B'' (rectAt 0 0) 2
       (fst (onOutputDisconnected (sampleHost [(7, 100, 50), (8, 200, 60)] []) ''A'' (rectAt 0 0) 1
              (enable defaultSettings))))"

section \<open>Properties\<close>

subsection \<open>Integers as doubles\<close>

lemma pow2_nonneg_exp: "0 \<le> k \<Longrightarrow> pow2 k = 2 ^ nat k"
  by (simp add: pow2_def)

lemma pow2_pos: "0 < pow2 k"
  by (simp add: pow2_def)

lemma floorLog2_int:
  assumes "n \<noteq> 0"
  shows "floorLog2 (of_int n) = bitlen \<bar>n\<bar> - 1"
proof -
  from assms have pos: "0 < \<bar>n\<bar>" by simp
  have ab: "\<bar>of_int n :: rat\<bar> = of_int \<bar>n\<bar>" by simp
  have q: "quotient_of (of_int \<bar>n\<bar>) = (\<bar>n\<bar>, 1)" by (rule quotient_of_rat_of_int)
  from bitlen_bounds[OF pos] have b: "2 ^ nat (bitlen \<bar>n\<bar> - 1) \<le> \<bar>n\<bar>" ..
  from pos have ge: "0 \<le> bitlen \<bar>n\<bar> - 1" by (auto simp: bitlen_alt_def)
  have b1: "bitlen 1 = 1" by (simp add: bitlen_alt_def)
  from b have "(of_int (2 ^ nat (bitlen \<bar>n\<bar> - 1)) :: rat) \<le> of_int \<bar>n\<bar>"
    by (simp only: of_int_le_iff)
  then have "(2::rat) ^ nat (bitlen \<bar>n\<bar> - 1) \<le> of_int \<bar>n\<bar>"
    by simp
  then have le: "pow2 (bitlen \<bar>n\<bar> - 1) \<le> of_int \<bar>n\<bar>"
    by (simp only: pow2_nonneg_exp[OF ge])
  show ?thesis
    unfolding floorLog2_def ab q prod.case b1 Let_def using le by (simp only: if_True)
qed

lemma roundHalfEven_int: "roundHalfEven (of_int m) = m"
  by (simp add: roundHalfEven_def)

lemma bitlen_exp_bounds:
  assumes "n \<noteq> 0" "\<bar>n\<bar> \<le> 2 ^ 53"
  shows "0 \<le> bitlen \<bar>n\<bar> - 1" "bitlen \<bar>n\<bar> - 1 \<le> 53" "2 ^ nat (bitlen \<bar>n\<bar> - 1) \<le> \<bar>n\<bar>"
proof -
  from assms have pos: "0 < \<bar>n\<bar>" by simp
  define e where "e = bitlen \<bar>n\<bar> - 1"
  from pos show e0: "0 \<le> bitlen \<bar>n\<bar> - 1" by (auto simp: bitlen_alt_def)
  from bitlen_bounds[OF pos] show lo: "2 ^ nat (bitlen \<bar>n\<bar> - 1) \<le> \<bar>n\<bar>" ..
  show "bitlen \<bar>n\<bar> - 1 \<le> 53"
  proof (rule ccontr)
    assume "\<not> bitlen \<bar>n\<bar> - 1 \<le> 53"
    then have "54 \<le> nat (bitlen \<bar>n\<bar> - 1)" by simp
    then have "(2::int) ^ 54 \<le> 2 ^ nat (bitlen \<bar>n\<bar> - 1)" by (intro power_increasing) simp_all
    with lo assms have "(2::int) ^ 54 \<le> 2 ^ 53" by linarith
    then show False by simp
  qed
qed

lemma scaled_int_low:
  assumes "e \<le> 52"
  shows "of_int (roundHalfEven (of_int n / pow2 (e - 52))) * pow2 (e - 52) = (of_int n :: rat)"
proof -
  from assms have p: "pow2 (e - 52) = 1 / 2 ^ nat (52 - e)"
    by (cases "e = 52") (simp_all add: pow2_def)
  have "of_int n / pow2 (e - 52) = (of_int (n * 2 ^ nat (52 - e)) :: rat)"
    by (simp add: p)
  then have "roundHalfEven (of_int n / pow2 (e - 52)) = n * 2 ^ nat (52 - e)"
    by (simp only: roundHalfEven_int)
  then show ?thesis by (simp add: p)
qed

lemma scaled_int_even:
  assumes "even n"
  shows "of_int (roundHalfEven (of_int n / pow2 1)) * pow2 1 = (of_int n :: rat)"
proof -
  from assms obtain m where n: "n = 2 * m" by (auto elim: evenE)
  have p: "pow2 1 = 2" by (simp add: pow2_def)
  have "of_int n / pow2 1 = (of_int m :: rat)" by (simp add: p n)
  then have "roundHalfEven (of_int n / pow2 1) = m" by (simp only: roundHalfEven_int)
  then show ?thesis by (simp add: p n)
qed

lemma int_below_pow2_1024:
  assumes "\<bar>n\<bar> \<le> 2 ^ 53"
  shows "\<bar>of_int n :: rat\<bar> < pow2 1024"
proof -
  have "\<bar>of_int n :: rat\<bar> = of_int \<bar>n\<bar>" by simp
  also have "\<dots> \<le> of_int (2 ^ 53)" using assms by (simp only: of_int_le_iff)
  also have "\<dots> = (2::rat) ^ 53" by simp
  also have "\<dots> < 2 ^ 1024" by (rule power_strict_increasing) simp_all
  also have "\<dots> = pow2 1024" by (simp only: pow2_nonneg_exp) simp
  finally show ?thesis .
qed

lemma roundToDouble_int:
  assumes "\<bar>n\<bar> \<le> 2 ^ 53"
  shows "roundToDouble (of_int n) = Finite (of_int n)"
proof (cases "n = 0")
  case True
  then show ?thesis by (simp add: roundToDouble_def)
next
  case False
  define e where "e = bitlen \<bar>n\<bar> - 1"
  from bitlen_exp_bounds[OF False assms]
  have e0: "0 \<le> e" and e53: "e \<le> 53" and lo: "2 ^ nat e \<le> \<bar>n\<bar>"
    by (simp_all add: e_def)
  have fl: "floorLog2 (of_int n) = e" by (simp add: floorLog2_int[OF False] e_def)
  have mx: "max e (- 1022) = e" using e0 by simp
  have r: "of_int (roundHalfEven (of_int n / pow2 (e - 52))) * pow2 (e - 52) = (of_int n :: rat)"
  proof (cases "e \<le> 52")
    case True
    then show ?thesis by (rule scaled_int_low)
  next
    case False
    with e53 have e: "e = 53" by simp
    with lo assms have "\<bar>n\<bar> = 2 ^ 53" by simp
    then have "even \<bar>n\<bar>" by simp
    then have "even n" by simp
    from scaled_int_even[OF this] show ?thesis by (simp add: e)
  qed
  have nz: "(of_int n :: rat) \<noteq> 0" using False by simp
  have "roundToDouble (of_int n) =
      (let ulp = pow2 (e - 52); r = of_int (roundHalfEven (of_int n / ulp)) * ulp
       in if pow2 1024 \<le> \<bar>r\<bar> then (if 0 < (of_int n :: rat) then PosInfinity else NegInfinity)
          else if r = 0 then (if 0 < (of_int n :: rat) then Finite 0 else NegZero)
          else Finite r)"
    unfolding roundToDouble_def fl mx using nz by simp
  also have "\<dots> = Finite (of_int n)"
    unfolding Let_def r using nz int_below_pow2_1024[OF assms] by (simp only: if_False not_le[symmetric])
  finally show ?thesis .
qed

lemma js_add_int:
  "\<bar>a + b\<bar> \<le> 2 ^ 53 \<Longrightarrow> js_add (Finite (of_int a)) (Finite (of_int b)) = Finite (of_int (a + b))"
  using roundToDouble_int[of "a + b"] by simp

lemma js_sub_int:
  "\<bar>a - b\<bar> \<le> 2 ^ 53 \<Longrightarrow> js_sub (Finite (of_int a)) (Finite (of_int b)) = Finite (of_int (a - b))"
  using roundToDouble_int[of "a - b"]
  by (cases "b = 0") (simp_all add: js_sub_def js_neg_def)

subsection \<open>The exponent and the rounding of any rational\<close>

lemma pow2_powi: "pow2 k = power_int 2 k"
  by (simp add: pow2_def power_int_def inverse_eq_divide power_one_over)

lemma pow2_add: "pow2 (i + j) = pow2 i * pow2 j"
  by (simp add: pow2_powi power_int_add)

lemma pow2_diff: "pow2 (i - j) = pow2 i / pow2 j"
  by (simp add: pow2_powi power_int_diff)

lemma pow2_less_iff: "pow2 i < pow2 j \<longleftrightarrow> i < j"
proof
  assume "pow2 i < pow2 j"
  show "i < j"
  proof (rule ccontr)
    assume "\<not> i < j"
    then have "j \<le> i" by simp
    then have "pow2 j \<le> pow2 i"
      unfolding pow2_powi by (intro power_int_increasing) simp_all
    with \<open>pow2 i < pow2 j\<close> show False by simp
  qed
next
  assume "i < j"
  then show "pow2 i < pow2 j"
    unfolding pow2_powi by (intro power_int_strict_increasing) simp_all
qed

lemma bitlen_pow2_bounds:
  assumes "0 < a"
  shows "pow2 (bitlen a - 1) \<le> of_int a" "of_int a < pow2 (bitlen a)"
proof -
  from assms have ge: "0 \<le> bitlen a - 1" by (auto simp: bitlen_alt_def)
  from bitlen_bounds[OF assms]
  have lo: "2 ^ nat (bitlen a - 1) \<le> a" and hi: "a < 2 ^ nat (bitlen a)" by simp_all
  from lo have "(of_int (2 ^ nat (bitlen a - 1)) :: rat) \<le> of_int a" by (simp only: of_int_le_iff)
  then show "pow2 (bitlen a - 1) \<le> of_int a" by (simp add: pow2_nonneg_exp[OF ge])
  from hi have "(of_int a :: rat) < of_int (2 ^ nat (bitlen a))" by (simp only: of_int_less_iff)
  moreover have "0 \<le> bitlen a" by (rule bitlen_nonneg)
  ultimately show "of_int a < pow2 (bitlen a)" by (simp add: pow2_nonneg_exp)
qed

lemma floorLog2_unique:
  assumes lo: "pow2 e \<le> \<bar>q\<bar>" and hi: "\<bar>q\<bar> < pow2 (e + 1)"
  shows "floorLog2 q = e"
proof -
  from lo pow2_pos[of e] have qpos: "0 < \<bar>q\<bar>" by linarith
  obtain a b where ab: "quotient_of \<bar>q\<bar> = (a, b)" by force
  then have bpos: "0 < b" by (rule quotient_of_denom_pos)
  from ab have q: "\<bar>q\<bar> = of_int a / of_int b" by (rule quotient_of_div)
  from qpos q bpos have apos: "0 < a" by (simp add: zero_less_divide_iff)
  define d where "d = bitlen a - bitlen b"
  note A = bitlen_pow2_bounds[OF apos] and B = bitlen_pow2_bounds[OF bpos]
  have bq: "(0::rat) < of_int b" using bpos by simp
  have up: "\<bar>q\<bar> < pow2 (d + 1)"
  proof -
    have "\<bar>q\<bar> < pow2 (bitlen a) / of_int b"
      unfolding q using A(2) bq by (simp add: divide_strict_right_mono)
    also have "\<dots> \<le> pow2 (bitlen a) / pow2 (bitlen b - 1)"
      using B(1) pow2_pos[of "bitlen b - 1"] pow2_pos[of "bitlen a"]
      by (simp add: frac_le)
    also have "\<dots> = pow2 (d + 1)"
      by (simp add: d_def pow2_diff[symmetric] algebra_simps)
    finally show ?thesis .
  qed
  have down: "pow2 (d - 1) < \<bar>q\<bar>"
  proof -
    have "pow2 (d - 1) = pow2 (bitlen a - 1) / pow2 (bitlen b)"
      by (simp add: d_def pow2_diff[symmetric] algebra_simps)
    also have "\<dots> \<le> of_int a / pow2 (bitlen b)"
      using A(1) pow2_pos[of "bitlen b"] by (simp add: divide_right_mono)
    also have "\<dots> < of_int a / of_int b"
      using B(2) apos bq by (simp add: frac_less2)
    finally show ?thesis by (simp add: q)
  qed
  have fl: "floorLog2 q = (if pow2 d \<le> \<bar>q\<bar> then d else d - 1)"
    by (simp add: floorLog2_def ab d_def Let_def)
  from lo up have "pow2 e < pow2 (d + 1)" by linarith
  then have e_le: "e \<le> d" by (simp add: pow2_less_iff)
  from down hi have "pow2 (d - 1) < pow2 (e + 1)" by linarith
  then have d_le: "d - 1 \<le> e" by (simp add: pow2_less_iff)
  show ?thesis
  proof (cases "pow2 d \<le> \<bar>q\<bar>")
    case True
    with hi have "pow2 d < pow2 (e + 1)" by linarith
    then have "d \<le> e" by (simp add: pow2_less_iff)
    with e_le True show ?thesis by (simp add: fl)
  next
    case False
    with lo have "pow2 e < pow2 d" by linarith
    then have "e < d" by (simp add: pow2_less_iff)
    with d_le False show ?thesis by (simp add: fl)
  qed
qed

lemma roundHalfEven_down:
  assumes "of_int f \<le> q" "q < of_int f + 1 / 2"
  shows "roundHalfEven q = f"
proof -
  from assms have "\<lfloor>q\<rfloor> = f" by (intro floor_unique) simp_all
  with assms show ?thesis by (simp add: roundHalfEven_def Let_def)
qed

lemma roundToDouble_normal:
  assumes "pow2 e \<le> \<bar>q\<bar>" "\<bar>q\<bar> < pow2 (e + 1)" "- 1022 \<le> e"
    and "roundHalfEven (q / pow2 (e - 52)) = n" "n \<noteq> 0"
    and "\<bar>of_int n * pow2 (e - 52)\<bar> < pow2 1024"
  shows "roundToDouble q = Finite (of_int n * pow2 (e - 52))"
proof -
  have fl: "floorLog2 q = e" using assms(1,2) by (rule floorLog2_unique)
  from assms(1) pow2_pos[of e] have nz: "q \<noteq> 0" by auto
  have mx: "max e (- 1022) = e" using assms(3) by simp
  have r0: "of_int n * pow2 (e - 52) \<noteq> 0" using assms(5) pow2_pos[of "e - 52"] by simp
  have "roundToDouble q =
      (let ulp = pow2 (e - 52); r = of_int (roundHalfEven (q / ulp)) * ulp
       in if pow2 1024 \<le> \<bar>r\<bar> then (if 0 < q then PosInfinity else NegInfinity)
          else if r = 0 then (if 0 < q then Finite 0 else NegZero)
          else Finite r)"
    unfolding roundToDouble_def fl mx using nz by simp
  also have "\<dots> = Finite (of_int n * pow2 (e - 52))"
    unfolding Let_def assms(4) using r0 assms(6) by (simp only: if_False not_le[symmetric])
  finally show ?thesis .
qed

lemma tenth_is_double:
  "roundToDouble (3602879701896397 / 36028797018963968) = Finite (3602879701896397 / 36028797018963968)"
proof -
  have "roundToDouble (3602879701896397 / 36028797018963968) =
          Finite (of_int 7205759403792794 * pow2 (- 4 - 52))"
    by (rule roundToDouble_normal) (simp_all add: pow2_def roundHalfEven_down)
  then show ?thesis by (simp add: pow2_def)
qed

lemma seven_tenths_is_double:
  "roundToDouble (- (3152519739159347 / 4503599627370496)) = Finite (- (3152519739159347 / 4503599627370496))"
proof -
  have "roundToDouble (- (3152519739159347 / 4503599627370496)) =
          Finite (of_int (- 6305039478318694) * pow2 (- 1 - 52))"
    by (rule roundToDouble_normal) (simp_all add: pow2_def roundHalfEven_down)
  then show ?thesis by (simp add: pow2_def)
qed

lemma tenth_plus_seven_tenths:
  "roundToDouble (28823037615171173 / 36028797018963968) =
     Finite (7205759403792793 / 9007199254740992)"
proof -
  have "roundToDouble (28823037615171173 / 36028797018963968) =
          Finite (of_int 7205759403792793 * pow2 (- 1 - 52))"
    by (rule roundToDouble_normal) (simp_all add: pow2_def roundHalfEven_down)
  then show ?thesis by (simp add: pow2_def)
qed

lemma back_minus_seven_tenths:
  "roundToDouble (900719925474099 / 9007199254740992) =
     Finite (900719925474099 / 9007199254740992)"
proof -
  have "roundToDouble (900719925474099 / 9007199254740992) =
          Finite (of_int 7205759403792792 * pow2 (- 4 - 52))"
    by (rule roundToDouble_normal) (simp_all add: pow2_def roundHalfEven_down)
  then show ?thesis by (simp add: pow2_def)
qed

lemma bitlen_2_53_plus_1: "bitlen 9007199254740993 = 54"
proof -
  have "bitlen 9007199254740993 \<le> 54" by (simp add: bitlen_le_iff_power)
  moreover have "54 \<le> bitlen 9007199254740993" by (simp add: bitlen_ge_iff_power)
  ultimately show ?thesis by simp
qed

lemma roundToDouble_2_53_plus_1: "roundToDouble 9007199254740993 = Finite 9007199254740992"
proof -
  have "floorLog2 (of_int 9007199254740993) = bitlen \<bar>9007199254740993\<bar> - 1"
    by (rule floorLog2_int) simp
  then have fl: "floorLog2 9007199254740993 = 53"
    by (simp add: bitlen_2_53_plus_1)
  have "\<lfloor>9007199254740993 / 2 :: rat\<rfloor> = 4503599627370496"
    by (rule floor_unique) simp_all
  then have rh: "roundHalfEven (9007199254740993 / 2) = 4503599627370496"
    by (simp add: roundHalfEven_def Let_def)
  show ?thesis
    by (simp add: roundToDouble_def fl pow2_def rh Let_def)
qed

subsection \<open>The transformations on whole pixels\<close>

lemma toRelative_int:
  assumes "ws_x ws = Finite (of_int a)" "ws_y ws = Finite (of_int b)"
    and "rect_x R = Finite (of_int rx)" "rect_y R = Finite (of_int ry)"
    and "\<bar>a - rx\<bar> \<le> 2 ^ 53" "\<bar>b - ry\<bar> \<le> 2 ^ 53"
  shows "toRelative R ws = ws\<lparr>ws_x := Finite (of_int (a - rx)), ws_y := Finite (of_int (b - ry))\<rparr>"
  using assms by (simp add: toRelative_def js_sub_int)

lemma toAbsolute_int:
  assumes "ws_x ws = Finite (of_int a)" "ws_y ws = Finite (of_int b)"
    and "rect_x R = Finite (of_int rx)" "rect_y R = Finite (of_int ry)"
    and "\<bar>a + rx\<bar> \<le> 2 ^ 53" "\<bar>b + ry\<bar> \<le> 2 ^ 53"
  shows "toAbsolute R ws = ws\<lparr>ws_x := Finite (of_int (a + rx)), ws_y := Finite (of_int (b + ry))\<rparr>"
  using assms by (simp add: toAbsolute_def js_add_int del: js_add.simps)

lemma round_trip_int:
  assumes "ws_x ws = Finite (of_int a)" "ws_y ws = Finite (of_int b)"
    and "rect_x R = Finite (of_int rx)" "rect_y R = Finite (of_int ry)"
    and "rect_x R' = Finite (of_int rx')" "rect_y R' = Finite (of_int ry')"
    and "\<bar>a - rx\<bar> \<le> 2 ^ 53" "\<bar>b - ry\<bar> \<le> 2 ^ 53"
    and "\<bar>a - rx + rx'\<bar> \<le> 2 ^ 53" "\<bar>b - ry + ry'\<bar> \<le> 2 ^ 53"
  shows "toAbsolute R' (toRelative R ws) =
           ws\<lparr>ws_x := Finite (of_int (a - rx + rx')), ws_y := Finite (of_int (b - ry + ry'))\<rparr>"
proof -
  have rel: "toRelative R ws = ws\<lparr>ws_x := Finite (of_int (a - rx)), ws_y := Finite (of_int (b - ry))\<rparr>"
    using assms by (intro toRelative_int)
  have "toAbsolute R' (ws\<lparr>ws_x := Finite (of_int (a - rx)), ws_y := Finite (of_int (b - ry))\<rparr>) =
          (ws\<lparr>ws_x := Finite (of_int (a - rx)), ws_y := Finite (of_int (b - ry))\<rparr>)
            \<lparr>ws_x := Finite (of_int (a - rx + rx')), ws_y := Finite (of_int (b - ry + ry'))\<rparr>"
    using assms by (intro toAbsolute_int) simp_all
  then show ?thesis by (simp add: rel)
qed

subsection \<open>Association lists\<close>

lemma list_all_update:
  "list_all P al \<Longrightarrow> P (k, v) \<Longrightarrow> list_all P (AList.update k v al)"
  by (induction al) auto

lemma list_all_delete: "list_all P al \<Longrightarrow> list_all P (AList.delete k al)"
  by (induction al) auto

lemma map_of_list_all: "list_all P al \<Longrightarrow> map_of al k = Some v \<Longrightarrow> P (k, v)"
  by (induction al) (auto split: if_splits)

subsection \<open>recordState\<close>

lemma recordState_map_of:
  "map_of (fst (recordState k t w ws wss)) w' =
     (if w' = w then
        (case map_of wss w of
           None \<Rightarrow> Some [(k, \<lparr>windowState = ws, time = t\<rparr>)]
         | Some m \<Rightarrow> (if map_of m k \<noteq> None then Some m
                      else Some (AList.update k \<lparr>windowState = ws, time = t\<rparr> m)))
      else map_of wss w')"
  by (auto simp: recordState_def update_conv' split: option.splits)

lemma recordState_nonempty:
  "list_all (\<lambda>(w, m). m \<noteq> []) wss \<Longrightarrow> list_all (\<lambda>(w, m). m \<noteq> []) (fst (recordState k t w ws wss))"
  by (auto simp: recordState_def list_all_update split: option.splits)

lemma recordState_distinct:
  "distinct (map fst wss) \<Longrightarrow> distinct (map fst (fst (recordState k t w ws wss)))"
  by (auto simp: recordState_def distinct_update split: option.splits)

lemma recordState_inner_distinct:
  assumes "list_all (\<lambda>(w, m). distinct (map fst m)) wss"
  shows "list_all (\<lambda>(w, m). distinct (map fst m)) (fst (recordState k t w ws wss))"
proof (cases "map_of wss w")
  case None
  then show ?thesis using assms by (simp add: recordState_def list_all_update)
next
  case (Some m)
  from map_of_list_all[OF assms Some] have "distinct (map fst m)" by simp
  then show ?thesis using assms Some
    by (simp add: recordState_def list_all_update distinct_update)
qed

subsection \<open>rememberWindow\<close>

lemma rememberWindow_mdw:
  "monitorDisconnectedWindows (fst (rememberWindow h k r t w s)) = monitorDisconnectedWindows s"
  by (simp add: rememberWindow_def callSafely_def split_def Let_def split: sum.splits)

lemma rememberWindow_settings:
  "settings (fst (rememberWindow h k r t w s)) = settings s"
  by (simp add: rememberWindow_def callSafely_def split_def Let_def split: sum.splits)

lemma rememberWindow_wss:
  "windowsSavedStates (fst (rememberWindow h k r t w s)) =
     (if rememberState (settings s) \<and> allowsMove h w
      then (case save h w of
              Inl e \<Rightarrow> windowsSavedStates s
            | Inr ws \<Rightarrow> fst (recordState k t w (toRelative r ws) (windowsSavedStates s)))
      else windowsSavedStates s)"
  by (simp add: rememberWindow_def callSafely_def split_def Let_def split: sum.splits)

subsection \<open>disconnectedWindow\<close>

lemma disconnectedWindow_settings:
  "settings (fst (disconnectedWindow h k r t w s)) = settings s"
  by (simp add: disconnectedWindow_def split_def Let_def rememberWindow_settings)

lemma disconnectedWindow_mdw:
  "monitorDisconnectedWindows (fst (disconnectedWindow h k r t w s)) =
     (if isInside h w r
      then AList.map_entry k (Set_add w) (monitorDisconnectedWindows s)
      else monitorDisconnectedWindows s)"
  by (simp add: disconnectedWindow_def split_def Let_def rememberWindow_mdw)

lemma disconnectedWindow_wss:
  "windowsSavedStates (fst (disconnectedWindow h k r t w s)) =
     (case captured h s r w of
        None \<Rightarrow> windowsSavedStates s
      | Some ws \<Rightarrow> fst (recordState k t w ws (windowsSavedStates s)))"
  by (simp add: disconnectedWindow_def split_def Let_def rememberWindow_wss captured_def split: sum.splits)

lemma disconnectedWindow_map_of_other:
  "w' \<noteq> w \<Longrightarrow> map_of (windowsSavedStates (fst (disconnectedWindow h k r t w s))) w' =
     map_of (windowsSavedStates s) w'"
  by (simp add: disconnectedWindow_wss recordState_map_of split: option.splits)

lemma disconnectedWindow_pending:
  "pendingState (fst (disconnectedWindow h k r t w s)) w' k' =
     (case captured h s r w of
        None \<Rightarrow> pendingState s w' k'
      | Some ws \<Rightarrow>
          if w' = w \<and> k' = k \<and> pendingState s w k = None
          then Some \<lparr>windowState = ws, time = t\<rparr>
          else pendingState s w' k')"
  by (auto simp: pendingState_def disconnectedWindow_wss recordState_map_of update_conv'
           split: option.splits)

lemma captured_settings: "settings s' = settings s \<Longrightarrow> captured h s' r w = captured h s r w"
  by (simp add: captured_def)

subsection \<open>disconnectedLoop\<close>

lemma disconnectedLoop_Cons:
  "fst (disconnectedLoop h k r t (w # ws) s) =
     fst (disconnectedLoop h k r t ws (fst (disconnectedWindow h k r t w s)))"
  by (simp add: split_def Let_def)

lemma disconnectedLoop_settings: "settings (fst (disconnectedLoop h k r t ws s)) = settings s"
  by (induction ws arbitrary: s) (simp_all add: split_def Let_def disconnectedWindow_settings)

lemma disconnectedLoop_keeps:
  "pendingState s w' k' = Some e \<Longrightarrow> pendingState (fst (disconnectedLoop h k r t ws s)) w' k' = Some e"
proof (induction ws arbitrary: s)
  case Nil
  then show ?case by simp
next
  case (Cons w ws)
  have "pendingState (fst (disconnectedWindow h k r t w s)) w' k' = Some e"
    using Cons.prems by (auto simp: disconnectedWindow_pending split: option.splits)
  from Cons.IH[OF this] show ?case by (simp only: disconnectedLoop_Cons)
qed

lemma disconnectedLoop_other_output:
  "k' \<noteq> k \<Longrightarrow> pendingState (fst (disconnectedLoop h k r t ws s)) w' k' = pendingState s w' k'"
proof (induction ws arbitrary: s)
  case Nil
  then show ?case by simp
next
  case (Cons w ws)
  have "pendingState (fst (disconnectedWindow h k r t w s)) w' k' = pendingState s w' k'"
    using Cons.prems by (simp add: disconnectedWindow_pending split: option.splits)
  with Cons.IH[OF Cons.prems] show ?case by (simp only: disconnectedLoop_Cons)
qed

lemma disconnectedLoop_new:
  "pendingState (fst (disconnectedLoop h k r t ws s)) w' k' = Some e \<Longrightarrow>
     pendingState s w' k' = Some e \<or>
     (k' = k \<and> time e = t \<and> w' \<in> set ws \<and> captured h s r w' = Some (windowState e))"
proof (induction ws arbitrary: s)
  case Nil
  then show ?case by simp
next
  case (Cons w ws)
  let ?s1 = "fst (disconnectedWindow h k r t w s)"
  have st: "settings ?s1 = settings s" by (rule disconnectedWindow_settings)
  from Cons.prems have "pendingState (fst (disconnectedLoop h k r t ws ?s1)) w' k' = Some e"
    by (simp only: disconnectedLoop_Cons)
  from Cons.IH[OF this]
  have "pendingState ?s1 w' k' = Some e \<or>
        (k' = k \<and> time e = t \<and> w' \<in> set ws \<and> captured h s r w' = Some (windowState e))"
    by (simp add: captured_settings[OF st])
  then show ?case
    by (auto simp: disconnectedWindow_pending split: option.splits if_splits)
qed

lemma disconnectedLoop_captures:
  "w \<in> set ws \<Longrightarrow> captured h s r w = Some st \<Longrightarrow> pendingState s w k = None \<Longrightarrow>
     pendingState (fst (disconnectedLoop h k r t ws s)) w k = Some \<lparr>windowState = st, time = t\<rparr>"
proof (induction ws arbitrary: s)
  case Nil
  then show ?case by simp
next
  case (Cons v ws)
  let ?s1 = "fst (disconnectedWindow h k r t v s)"
  have st: "settings ?s1 = settings s" by (rule disconnectedWindow_settings)
  show ?case
  proof (cases "v = w")
    case True
    have "pendingState ?s1 w k = Some \<lparr>windowState = st, time = t\<rparr>"
      using True Cons.prems by (simp add: disconnectedWindow_pending)
    from disconnectedLoop_keeps[OF this] show ?thesis by (simp only: disconnectedLoop_Cons)
  next
    case False
    with Cons.prems have in_ws: "w \<in> set ws" by simp
    have cap: "captured h ?s1 r w = Some st"
      using Cons.prems(2) by (simp add: captured_settings[OF st])
    have "pendingState ?s1 w k = None"
      using False Cons.prems(3) by (simp add: disconnectedWindow_pending split: option.splits)
    from Cons.IH[OF in_ws cap this] show ?thesis by (simp only: disconnectedLoop_Cons)
  qed
qed

lemma disconnectedLoop_failed:
  "captured h s r w = None \<Longrightarrow>
     map_of (windowsSavedStates (fst (disconnectedLoop h k r t ws s))) w =
     map_of (windowsSavedStates s) w"
proof (induction ws arbitrary: s)
  case Nil
  then show ?case by simp
next
  case (Cons v ws)
  let ?s1 = "fst (disconnectedWindow h k r t v s)"
  have st: "settings ?s1 = settings s" by (rule disconnectedWindow_settings)
  have cap: "captured h ?s1 r w = None"
    using Cons.prems by (simp add: captured_settings[OF st])
  have "map_of (windowsSavedStates ?s1) w = map_of (windowsSavedStates s) w"
  proof (cases "v = w")
    case True
    then show ?thesis using Cons.prems by (simp add: disconnectedWindow_wss)
  next
    case False
    then show ?thesis by (simp add: disconnectedWindow_map_of_other)
  qed
  with Cons.IH[OF cap] show ?case by (simp only: disconnectedLoop_Cons)
qed

subsection \<open>The stranded set built by the loop\<close>

lemma set_fold_Set_add: "set (fold Set_add xs dw) = set dw \<union> set xs"
  by (induction xs arbitrary: dw) (auto simp: Set_add_def)

lemma disconnectedLoop_mdw:
  "monitorDisconnectedWindows (fst (disconnectedLoop h k r t ws s)) =
     fold (\<lambda>w m. if isInside h w r then AList.map_entry k (Set_add w) m else m) ws
       (monitorDisconnectedWindows s)"
proof (induction ws arbitrary: s)
  case Nil
  show ?case by simp
next
  case (Cons w ws)
  show ?case
    by (simp only: disconnectedLoop_Cons Cons.IH fold_simps disconnectedWindow_mdw)
qed

lemma map_of_fold_map_entry:
  "map_of (fold (\<lambda>w m. if P w then AList.map_entry k (Set_add w) m else m) ws al) k' =
     (if k' = k then map_option (fold Set_add (filter P ws)) (map_of al k) else map_of al k')"
  by (induction ws arbitrary: al) (auto simp: map_of_map_entry option.map_id option.map_comp comp_def split: option.splits)

lemma onOutputDisconnected_stranded:
  "stranded (fst (onOutputDisconnected h k r t s)) k' =
     (if k' = k then Some {w \<in> set (list_windows h). isInside h w r} else stranded s k')"
  by (auto simp: stranded_def onOutputDisconnected_def disconnectedLoop_mdw
        map_of_fold_map_entry update_conv' set_fold_Set_add)

subsection \<open>Invariants of the disconnect handler\<close>

lemma disconnectedLoop_nonempty:
  "pendingNonempty s \<Longrightarrow> pendingNonempty (fst (disconnectedLoop h k r t ws s))"
proof (induction ws arbitrary: s)
  case Nil
  then show ?case by simp
next
  case (Cons w ws)
  have "pendingNonempty (fst (disconnectedWindow h k r t w s))"
    using Cons.prems
    by (simp add: pendingNonempty_def disconnectedWindow_wss recordState_nonempty
             split: option.splits)
  from Cons.IH[OF this] show ?case by (simp only: disconnectedLoop_Cons)
qed

lemma disconnectedLoop_keysDistinct:
  "keysDistinct s \<Longrightarrow> keysDistinct (fst (disconnectedLoop h k r t ws s))"
proof (induction ws arbitrary: s)
  case Nil
  then show ?case by simp
next
  case (Cons w ws)
  have "keysDistinct (fst (disconnectedWindow h k r t w s))"
    using Cons.prems
    by (simp add: keysDistinct_def disconnectedWindow_wss recordState_distinct
          recordState_inner_distinct split: option.splits)
  from Cons.IH[OF this] show ?case by (simp only: disconnectedLoop_Cons)
qed

subsection \<open>forgetStates\<close>

lemma forgetStates_set:
  "set (forgetStates k e m) = {(k', e'). (k', e') \<in> set m \<and> k' \<noteq> k \<and> time e' < time e}"
  by (auto simp: forgetStates_def AList.delete_eq)

lemma forgetStates_distinct:
  "distinct (map fst m) \<Longrightarrow> distinct (map fst (forgetStates k e m))"
  by (simp add: forgetStates_def distinct_delete distinct_map_filter)

lemma forgetStates_map_of:
  assumes "distinct (map fst m)"
  shows "map_of (forgetStates k e m) k' =
     (case map_of m k' of
        None \<Rightarrow> None
      | Some e' \<Rightarrow> if k' \<noteq> k \<and> time e' < time e then Some e' else None)"
proof (cases "map_of (forgetStates k e m) k'")
  case None
  then have "\<forall>e'. (k', e') \<notin> set (forgetStates k e m)"
    by (metis forgetStates_distinct assms map_of_eq_Some_iff option.distinct(1))
  then show ?thesis using None assms
    by (auto simp: forgetStates_set split: option.splits)
next
  case (Some e')
  then have "(k', e') \<in> set (forgetStates k e m)" by (rule map_of_SomeD)
  then have "(k', e') \<in> set m" "k' \<noteq> k" "time e' < time e"
    by (auto simp: forgetStates_set)
  then show ?thesis using Some assms by simp
qed

subsection \<open>loadedWindow and loadedLoop\<close>

lemma loadedWindow_fst:
  "fst (loadedWindow h k r (w, m)) =
     (w, case map_of m k of None \<Rightarrow> m | Some e \<Rightarrow> forgetStates k e m)"
  by (simp add: loadedWindow_def Let_def split: option.splits)

lemma loadedWindow_restoreCalls:
  "restoreCalls (snd (loadedWindow h k r (w, m))) =
     (case map_of m k of None \<Rightarrow> [] | Some e \<Rightarrow> [(w, toAbsolute r (windowState e), r)])"
  by (simp add: loadedWindow_def Let_def restoreCalls_def callSafely_def
           split: option.splits sum.splits)

lemma loadedLoop_Cons:
  "fst (loadedLoop h k r (p # wss)) = fst (loadedWindow h k r p) # fst (loadedLoop h k r wss)"
  "snd (loadedLoop h k r (p # wss)) = snd (loadedWindow h k r p) @ snd (loadedLoop h k r wss)"
  by (simp_all add: split_def Let_def)

lemma loadedLoop_fst:
  "fst (loadedLoop h k r wss) =
     map (\<lambda>(w, m). (w, case map_of m k of None \<Rightarrow> m | Some e \<Rightarrow> forgetStates k e m)) wss"
proof (induction wss)
  case Nil
  show ?case by simp
next
  case (Cons p wss)
  obtain w m where p: "p = (w, m)" by (cases p)
  show ?case by (simp only: loadedLoop_Cons Cons.IH p loadedWindow_fst list.map prod.case)
qed

lemma restoreCalls_append: "restoreCalls (xs @ ys) = restoreCalls xs @ restoreCalls ys"
  by (simp add: restoreCalls_def)

lemma loadedLoop_restoreCalls:
  "restoreCalls (snd (loadedLoop h k r wss)) =
     concat (map (\<lambda>(w, m). case map_of m k of
                              None \<Rightarrow> []
                            | Some e \<Rightarrow> [(w, toAbsolute r (windowState e), r)]) wss)"
proof (induction wss)
  case Nil
  show ?case by (simp add: restoreCalls_def)
next
  case (Cons p wss)
  obtain w m where p: "p = (w, m)" by (cases p)
  show ?case
    by (simp only: loadedLoop_Cons restoreCalls_append Cons.IH p loadedWindow_restoreCalls
          list.map prod.case concat.simps)
qed

subsection \<open>onOutputDisconnected\<close>

lemma pendingState_mdw_update [simp]:
  "pendingState (s\<lparr>monitorDisconnectedWindows := m\<rparr>) = pendingState s"
  by (simp add: pendingState_def fun_eq_iff)

lemma onOutputDisconnected_keeps:
  "pendingState s w k' = Some e \<Longrightarrow> pendingState (fst (onOutputDisconnected h k r t s)) w k' = Some e"
  by (simp add: onOutputDisconnected_def disconnectedLoop_keeps)

lemma onOutputDisconnected_new:
  "pendingState (fst (onOutputDisconnected h k r t s)) w k' = Some e \<Longrightarrow>
     pendingState s w k' = Some e \<or> (k' = k \<and> time e = t)"
  by (auto simp: onOutputDisconnected_def dest!: disconnectedLoop_new)

lemma onOutputDisconnected_captures:
  assumes "w \<in> set (list_windows h)" "isInside h w r" "rememberState (settings s)"
    "allowsMove h w" "save h w = Inr ws" "pendingState s w k = None"
  shows "pendingState (fst (onOutputDisconnected h k r t s)) w k =
           Some \<lparr>windowState = toRelative r ws, time = t\<rparr>"
  unfolding onOutputDisconnected_def
  by (rule disconnectedLoop_captures) (use assms in \<open>simp_all add: captured_def\<close>)

lemma onOutputDisconnected_failed:
  "save h w = Inl err \<Longrightarrow>
     map_of (windowsSavedStates (fst (onOutputDisconnected h k r t s))) w =
     map_of (windowsSavedStates s) w"
  by (simp add: onOutputDisconnected_def disconnectedLoop_failed captured_def)

lemma onOutputDisconnected_mdw_save:
  "monitorDisconnectedWindows (fst (onOutputDisconnected (h\<lparr>save := sv\<rparr>) k r t s)) =
   monitorDisconnectedWindows (fst (onOutputDisconnected h k r t s))"
  by (simp add: onOutputDisconnected_def disconnectedLoop_mdw)

lemma onOutputDisconnected_nonempty:
  "pendingNonempty s \<Longrightarrow> pendingNonempty (fst (onOutputDisconnected h k r t s))"
  unfolding onOutputDisconnected_def
  by (rule disconnectedLoop_nonempty) (simp add: pendingNonempty_def)

lemma onOutputDisconnected_keysDistinct:
  "keysDistinct s \<Longrightarrow> keysDistinct (fst (onOutputDisconnected h k r t s))"
  unfolding onOutputDisconnected_def
  by (rule disconnectedLoop_keysDistinct) (simp add: keysDistinct_def)

subsection \<open>onMonitorLoaded\<close>

lemma onMonitorLoaded_wss:
  "windowsSavedStates (fst (onMonitorLoaded h k r s)) =
     map (\<lambda>(w, m). (w, case map_of m k of None \<Rightarrow> m | Some e \<Rightarrow> forgetStates k e m))
       (windowsSavedStates s)"
  by (simp add: onMonitorLoaded_def split_def Let_def loadedLoop_fst)

lemma onMonitorLoaded_frame:
  "monitorDisconnectedWindows (fst (onMonitorLoaded h k r s)) = monitorDisconnectedWindows s"
  "settings (fst (onMonitorLoaded h k r s)) = settings s"
  by (simp_all add: onMonitorLoaded_def split_def Let_def)

lemma onMonitorLoaded_restore:
  "fst (onMonitorLoaded (h\<lparr>restore := rs\<rparr>) k r s) = fst (onMonitorLoaded h k r s)"
  by (simp add: onMonitorLoaded_def split_def Let_def loadedLoop_fst)

lemma onMonitorLoaded_keys:
  "map fst (windowsSavedStates (fst (onMonitorLoaded h k r s))) = map fst (windowsSavedStates s)"
  by (simp add: onMonitorLoaded_wss split_def comp_def)

lemma map_of_map_value: "map_of (map (\<lambda>(w, m). (w, f m)) al) w = map_option f (map_of al w)"
  by (induction al) auto

lemma onMonitorLoaded_map_of:
  "map_of (windowsSavedStates (fst (onMonitorLoaded h k r s))) w =
     map_option (\<lambda>m. case map_of m k of None \<Rightarrow> m | Some e \<Rightarrow> forgetStates k e m)
       (map_of (windowsSavedStates s) w)"
  by (simp only: onMonitorLoaded_wss map_of_map_value)

lemma onMonitorLoaded_restoreCalls:
  "restoreCalls (snd (onMonitorLoaded h k r s)) =
     concat (map (\<lambda>(w, m). case map_of m k of
                              None \<Rightarrow> []
                            | Some e \<Rightarrow> [(w, toAbsolute r (windowState e), r)])
               (windowsSavedStates s))"
  by (simp add: onMonitorLoaded_def split_def Let_def loadedLoop_restoreCalls)

lemma restoreCalls_of_window:
  "distinct (map fst wss) \<Longrightarrow>
     filter (\<lambda>c. fst c = w)
       (concat (map (\<lambda>(w, m). case map_of m k of
                              None \<Rightarrow> []
                            | Some e \<Rightarrow> [(w, f e, r)]) wss)) =
     (case map_of wss w of
        None \<Rightarrow> []
      | Some m \<Rightarrow> (case map_of m k of None \<Rightarrow> [] | Some e \<Rightarrow> [(w, f e, r)]))"
proof (induction wss)
  case Nil
  show ?case by simp
next
  case (Cons p wss)
  obtain v m where p: "p = (v, m)" by (cases p)
  from Cons.prems p have notin: "v \<notin> fst ` set wss" and d: "distinct (map fst wss)" by auto
  show ?case
  proof (cases "v = w")
    case True
    with notin have "map_of wss w = None" by (simp add: map_of_eq_None_iff)
    with Cons.IH[OF d] True p show ?thesis by (simp split: option.splits)
  next
    case False
    with Cons.IH[OF d] p show ?thesis by (simp split: option.splits)
  qed
qed

lemma restoreCalls_member:
  "map_of wss w = Some m \<Longrightarrow> map_of m k = Some e \<Longrightarrow>
     (w, f e, r) \<in> set (concat (map (\<lambda>(w, m). case map_of m k of
                              None \<Rightarrow> []
                            | Some e \<Rightarrow> [(w, f e, r)]) wss))"
  by (induction wss) (auto split: if_splits)

lemma onMonitorLoaded_keysDistinct:
  assumes "keysDistinct s"
  shows "keysDistinct (fst (onMonitorLoaded h k r s))"
proof -
  have "distinct (map fst (windowsSavedStates (fst (onMonitorLoaded h k r s))))"
    using assms by (simp only: onMonitorLoaded_keys keysDistinct_def)
  moreover have "list_all (\<lambda>(w, m). distinct (map fst m))
                   (windowsSavedStates (fst (onMonitorLoaded h k r s)))"
    using assms
    by (auto simp: keysDistinct_def onMonitorLoaded_wss list_all_iff forgetStates_distinct
             split: option.splits)
  ultimately show ?thesis by (simp add: keysDistinct_def)
qed

subsection \<open>The other handlers\<close>

lemma others_keysDistinct:
  assumes "keysDistinct s"
  shows "keysDistinct (onOutputConnected k r s)"
    and "keysDistinct (fst (onMonitorUnloaded h k r s))"
    and "keysDistinct (onWindowRemoved w s)"
    and "keysDistinct (fst (setRememberState v s))"
    and "keysDistinct (fst (setMinimize v s))"
  using assms
  by (simp_all add: keysDistinct_def onOutputConnected_def onMonitorUnloaded_def
        onWindowRemoved_def setRememberState_def onRememberStateChange_def setMinimize_def
        onMinimizeChange_def distinct_delete list_all_delete split: option.splits)

lemma others_nonempty:
  assumes "pendingNonempty s"
  shows "pendingNonempty (onOutputConnected k r s)"
    and "pendingNonempty (fst (onMonitorUnloaded h k r s))"
    and "pendingNonempty (onWindowRemoved w s)"
    and "pendingNonempty (fst (setRememberState v s))"
    and "pendingNonempty (fst (setMinimize v s))"
  using assms
  by (simp_all add: pendingNonempty_def onOutputConnected_def onMonitorUnloaded_def
        onWindowRemoved_def setRememberState_def onRememberStateChange_def setMinimize_def
        onMinimizeChange_def list_all_delete split: option.splits)

lemma reachable_keysDistinct: "reachable s \<Longrightarrow> keysDistinct s"
proof (induction rule: reachable.induct)
  case (r_enable stored)
  show ?case by (simp add: keysDistinct_def enable_def)
qed (simp_all add: onOutputDisconnected_keysDistinct onMonitorLoaded_keysDistinct
       others_keysDistinct)

subsection \<open>The pending states after monitor-loaded\<close>

lemma onMonitorLoaded_pending:
  assumes "reachable s" "pendingState s w k = Some e"
  shows "pendingState (fst (onMonitorLoaded h k r s)) w k' =
     (case pendingState s w k' of
        None \<Rightarrow> None
      | Some e' \<Rightarrow> if k' \<noteq> k \<and> time e' < time e then Some e' else None)"
proof -
  from assms(2) obtain m where m: "map_of (windowsSavedStates s) w = Some m" "map_of m k = Some e"
    by (auto simp: pendingState_def split: option.splits)
  from reachable_keysDistinct[OF assms(1)]
  have "list_all (\<lambda>(w, m). distinct (map fst m)) (windowsSavedStates s)"
    by (simp add: keysDistinct_def)
  from map_of_list_all[OF this m(1)] have d: "distinct (map fst m)" by simp
  show ?thesis
    by (simp add: pendingState_def onMonitorLoaded_map_of m forgetStates_map_of[OF d])
qed

lemma onMonitorLoaded_restoreCalls_window:
  assumes "reachable s" "pendingState s w k = Some e"
  shows "filter (\<lambda>c. fst c = w) (restoreCalls (snd (onMonitorLoaded h k r s))) =
           [(w, toAbsolute r (windowState e), r)]"
proof -
  from assms(2) obtain m where m: "map_of (windowsSavedStates s) w = Some m" "map_of m k = Some e"
    by (auto simp: pendingState_def split: option.splits)
  from reachable_keysDistinct[OF assms(1)]
  have d: "distinct (map fst (windowsSavedStates s))"
    by (simp add: keysDistinct_def)
  show ?thesis
    by (simp only: onMonitorLoaded_restoreCalls
          restoreCalls_of_window[OF d, where f = "\<lambda>e. toAbsolute r (windowState e)"]
          m option.case)
qed

lemma onMonitorLoaded_restore_member:
  assumes "pendingState s w k = Some e"
  shows "(w, toAbsolute r (windowState e), r) \<in> set (restoreCalls (snd (onMonitorLoaded h k r s)))"
proof -
  from assms obtain m where m: "map_of (windowsSavedStates s) w = Some m" "map_of m k = Some e"
    by (auto simp: pendingState_def split: option.splits)
  show ?thesis
    unfolding onMonitorLoaded_restoreCalls
    by (rule restoreCalls_member[OF m, where f = "\<lambda>e. toAbsolute r (windowState e)"])
qed

lemma onMonitorLoaded_matched_removed:
  assumes "pendingState s w k = Some e"
  shows "pendingState (fst (onMonitorLoaded h k r s)) w k = None"
proof -
  from assms obtain m where m: "map_of (windowsSavedStates s) w = Some m" "map_of m k = Some e"
    by (auto simp: pendingState_def split: option.splits)
  have "k \<notin> fst ` set (forgetStates k e m)"
    by (auto simp: forgetStates_set)
  then have "map_of (forgetStates k e m) k = None"
    by (simp add: map_of_eq_None_iff)
  then show ?thesis
    by (simp add: pendingState_def onMonitorLoaded_map_of m)
qed

subsection \<open>window-removed\<close>

lemma onWindowRemoved_stranded:
  "stranded (onWindowRemoved w s) k = map_option (\<lambda>S. S - {w}) (stranded s k)"
  by (simp add: stranded_def onWindowRemoved_def map_of_map_value Set_delete_def
        option.map_comp comp_def)

subsection \<open>Evaluating the scenarios\<close>

lemma roundToDouble_numeral:
  "numeral m \<le> (2 ^ 53 :: int) \<Longrightarrow> roundToDouble (numeral m) = Finite (numeral m)"
  using roundToDouble_int[of "numeral m"] by simp

lemma roundToDouble_zero: "roundToDouble 0 = Finite 0"
  by (simp add: roundToDouble_def)

lemmas scenario =
  enable_def defaultSettings_def sampleHost_def insideRect_def rectAt_def
  onOutputDisconnected_def disconnectedWindow_def rememberWindow_def recordState_def
  callSafely_def toRelative_def toAbsolute_def js_sub_def js_neg_def Let_def
  roundToDouble_numeral roundToDouble_zero
  onMonitorLoaded_def loadedWindow_def forgetStates_def
  onOutputConnected_def onMonitorUnloaded_def onWindowRemoved_def
  setRememberState_def onRememberStateChange_def setMinimize_def onMinimizeChange_def
  Set_add_def Set_delete_def pendingState_def stranded_def restoreCalls_def
  minimizeCalls_def pendingNonempty_def
  hdmiSaved_def twoSaves_def sameTimeSaves_def bothSaved_def strandedTwice_def

section \<open>The claims\<close>

subsection \<open>C1: windows with an empty inner map\<close>

text \<open>
  Claim C1 says that in every reachable state no window of \<^verbatim>\<open>_windowsSavedStates\<close> maps
  to an empty inner map. The state below is reached by one disconnect and one load of the
  same output: the load handler deletes the only entry of window 7 (lines 134-141) and
  leaves the window in the outer map with an empty inner map.
\<close>

theorem C1_counterexample:
  "reachable (fst (onMonitorLoaded (sampleHost [(7, 100, 50)] []) ''HDMI-1'' (rectAt 1920 0)
      (fst (onOutputDisconnected (sampleHost [(7, 100, 50)] []) ''HDMI-1'' (rectAt 0 0) 1000
              (enable defaultSettings))))) \<and>
   windowsSavedStates (fst (onMonitorLoaded (sampleHost [(7, 100, 50)] []) ''HDMI-1'' (rectAt 1920 0)
      (fst (onOutputDisconnected (sampleHost [(7, 100, 50)] []) ''HDMI-1'' (rectAt 0 0) 1000
              (enable defaultSettings))))) = [(7, [])] \<and>
   \<not> pendingNonempty (fst (onMonitorLoaded (sampleHost [(7, 100, 50)] []) ''HDMI-1'' (rectAt 1920 0)
      (fst (onOutputDisconnected (sampleHost [(7, 100, 50)] []) ''HDMI-1'' (rectAt 0 0) 1000
              (enable defaultSettings)))))"
proof (intro conjI)
  show "reachable (fst (onMonitorLoaded (sampleHost [(7, 100, 50)] []) ''HDMI-1'' (rectAt 1920 0)
      (fst (onOutputDisconnected (sampleHost [(7, 100, 50)] []) ''HDMI-1'' (rectAt 0 0) 1000
              (enable defaultSettings)))))"
    by (intro reachable.intros)
  show "windowsSavedStates (fst (onMonitorLoaded (sampleHost [(7, 100, 50)] []) ''HDMI-1'' (rectAt 1920 0)
      (fst (onOutputDisconnected (sampleHost [(7, 100, 50)] []) ''HDMI-1'' (rectAt 0 0) 1000
              (enable defaultSettings))))) = [(7, [])]"
    by (simp add: scenario)
  show "\<not> pendingNonempty (fst (onMonitorLoaded (sampleHost [(7, 100, 50)] []) ''HDMI-1'' (rectAt 1920 0)
      (fst (onOutputDisconnected (sampleHost [(7, 100, 50)] []) ''HDMI-1'' (rectAt 0 0) 1000
              (enable defaultSettings)))))"
    by (simp add: scenario)
qed

text \<open>
  Claim C1, amended. \<^verbatim>\<open>enable\<close> establishes the invariant, and every handler other than
  monitor-loaded preserves it: output-disconnected, output-connected, monitor-unloaded,
  window-removed and the two settings callbacks. The monitor-loaded handler keeps every
  key of \<^verbatim>\<open>_windowsSavedStates\<close>, whatever it removes from the inner maps.
\<close>

theorem C1_invariant_except_loaded:
  "pendingNonempty (enable stored) \<and>
   (pendingNonempty s \<longrightarrow>
      pendingNonempty (fst (onOutputDisconnected h outputName monitorRect t s)) \<and>
      pendingNonempty (onOutputConnected outputName monitorRect s) \<and>
      pendingNonempty (fst (onMonitorUnloaded h outputName monitorRect s)) \<and>
      pendingNonempty (onWindowRemoved w s) \<and>
      pendingNonempty (fst (setRememberState v s)) \<and>
      pendingNonempty (fst (setMinimize v s))) \<and>
   map fst (windowsSavedStates (fst (onMonitorLoaded h outputName monitorRect s))) =
     map fst (windowsSavedStates s)"
  by (simp add: onOutputDisconnected_nonempty others_nonempty onMonitorLoaded_keys)
     (simp add: pendingNonempty_def enable_def)

theorem C1_witness:
  "pendingNonempty hdmiSaved \<and>
   windowsSavedStates hdmiSaved =
     [(7, [(''HDMI-1'', \<lparr>windowState = \<lparr>ws_x = Finite 100, ws_y = Finite 50, ws_rest = 7\<rparr>, time = 1000\<rparr>)])] \<and>
   pendingNonempty (fst (onOutputDisconnected (sampleHost [(7, 100, 50), (8, 200, 60)] [])
                           ''DP-1'' (rectAt 0 0) 2000 hdmiSaved)) \<and>
   pendingNonempty (onOutputConnected ''HDMI-1'' (rectAt 0 0) hdmiSaved) \<and>
   pendingNonempty (fst (onMonitorUnloaded (sampleHost [(7, 100, 50)] []) ''HDMI-1'' (rectAt 0 0)
                           hdmiSaved)) \<and>
   pendingNonempty (onWindowRemoved 7 hdmiSaved) \<and>
   pendingNonempty (fst (setRememberState False hdmiSaved)) \<and>
   pendingNonempty (fst (setMinimize False hdmiSaved)) \<and>
   map fst (windowsSavedStates (fst (onMonitorLoaded (sampleHost [(7, 100, 50)] []) ''HDMI-1''
                                      (rectAt 1920 0) hdmiSaved))) = [7]"
proof -
  have a: "pendingNonempty hdmiSaved" by (simp add: scenario)
  have b: "windowsSavedStates hdmiSaved =
     [(7, [(''HDMI-1'', \<lparr>windowState = \<lparr>ws_x = Finite 100, ws_y = Finite 50, ws_rest = 7\<rparr>, time = 1000\<rparr>)])]"
    by (simp add: scenario)
  from C1_invariant_except_loaded[of _ hdmiSaved "sampleHost [(7, 100, 50), (8, 200, 60)] []"
         "''DP-1''" "rectAt 0 0" 2000 7 False]
       C1_invariant_except_loaded[of _ hdmiSaved "sampleHost [(7, 100, 50)] []"
         "''HDMI-1''" "rectAt 0 0" 2000 7 False]
       C1_invariant_except_loaded[of _ hdmiSaved "sampleHost [(7, 100, 50)] []"
         "''HDMI-1''" "rectAt 1920 0" 2000 7 False]
       a b
  show ?thesis by simp
qed

subsection \<open>C2: a failing codec call\<close>

text \<open>
  Claim C2 says that a failing codec call leaves the tracker's state for the window as it
  was. That fails for \<^verbatim>\<open>restore\<close>: the load handler deletes the matched entry and the
  younger ones (lines 134-141) before it calls \<^verbatim>\<open>restore\<close> (line 150) and never puts them
  back. In the state below windows 1 and 2 have a pending state for output B; restoring
  window 1 throws; after the handler window 1 has lost its pending state, and window 2
  was still restored.
\<close>

theorem C2_counterexample:
  "reachable bothSaved \<and>
   windowsSavedStates bothSaved =
     [(1, [(''B'', \<lparr>windowState = \<lparr>ws_x = Finite 10, ws_y = Finite 10, ws_rest = 1\<rparr>, time = 1\<rparr>)]),
      (2, [(''B'', \<lparr>windowState = \<lparr>ws_x = Finite 20, ws_y = Finite 20, ws_rest = 2\<rparr>, time = 1\<rparr>)])] \<and>
   restore (sampleHost [(1, 10, 10), (2, 20, 20)] [1]) 1
     (toAbsolute (rectAt 0 0) \<lparr>ws_x = Finite 10, ws_y = Finite 10, ws_rest = 1\<rparr>) (rectAt 0 0) =
     Inl RestoreError \<and>
   snd (onMonitorLoaded (sampleHost [(1, 10, 10), (2, 20, 20)] [1]) ''B'' (rectAt 0 0) bothSaved) =
     [Log_Restore 1 ''B'' \<lparr>ws_x = Finite 10, ws_y = Finite 10, ws_rest = 1\<rparr>,
      Restore_call 1 \<lparr>ws_x = Finite 10, ws_y = Finite 10, ws_rest = 1\<rparr> (rectAt 0 0),
      Log_Error RestoreError,
      Log_Restore 2 ''B'' \<lparr>ws_x = Finite 20, ws_y = Finite 20, ws_rest = 2\<rparr>,
      Restore_call 2 \<lparr>ws_x = Finite 20, ws_y = Finite 20, ws_rest = 2\<rparr> (rectAt 0 0)] \<and>
   pendingState bothSaved 1 ''B'' =
     Some \<lparr>windowState = \<lparr>ws_x = Finite 10, ws_y = Finite 10, ws_rest = 1\<rparr>, time = 1\<rparr> \<and>
   pendingState (fst (onMonitorLoaded (sampleHost [(1, 10, 10), (2, 20, 20)] [1]) ''B''
                        (rectAt 0 0) bothSaved)) 1 ''B'' = None \<and>
   map_of (windowsSavedStates
            (fst (onMonitorLoaded (sampleHost [(1, 10, 10), (2, 20, 20)] [1]) ''B''
                    (rectAt 0 0) bothSaved))) 1 \<noteq>
     map_of (windowsSavedStates bothSaved) 1"
proof -
  have r: "reachable bothSaved"
    unfolding bothSaved_def by (intro reachable.intros)
  show ?thesis using r by (simp add: scenario)
qed

text \<open>
  Claim C2, amended. In the disconnect handler, when \<^verbatim>\<open>save\<close> throws for a window, the
  window's entry of \<^verbatim>\<open>_windowsSavedStates\<close> after the handler is the one before it; the map
  \<^verbatim>\<open>_monitorDisconnectedWindows\<close> after the handler is the same for every behaviour of
  \<^verbatim>\<open>save\<close>; every listed window inside the rectangle is in the stranded set, and every
  listed window whose capture succeeds (and that had no pending entry for the output) has
  its state recorded, whichever other windows failed. In the load handler, whether
  \<^verbatim>\<open>restore\<close> throws or not: a window that had a pending entry for the output has none
  after the handler, and in a reachable state its other entries are the older ones it had
  before; the tracker after the handler is the same for every behaviour of \<^verbatim>\<open>restore\<close>;
  every window with a pending entry for the output gets its \<^verbatim>\<open>restore\<close> call, whichever
  other calls failed.
\<close>

theorem C2_failed_codec_call:
  "(save h w = Inl err \<longrightarrow>
      map_of (windowsSavedStates (fst (onOutputDisconnected h outputName monitorRect t s))) w =
      map_of (windowsSavedStates s) w) \<and>
   monitorDisconnectedWindows (fst (onOutputDisconnected (h\<lparr>save := sv\<rparr>) outputName monitorRect t s)) =
     monitorDisconnectedWindows (fst (onOutputDisconnected h outputName monitorRect t s)) \<and>
   (w' \<in> set (list_windows h) \<and> isInside h w' monitorRect \<longrightarrow>
      (\<exists>dw. stranded (fst (onOutputDisconnected h outputName monitorRect t s)) outputName = Some dw
            \<and> w' \<in> dw)) \<and>
   (w' \<in> set (list_windows h) \<and> isInside h w' monitorRect \<and> rememberState (settings s) \<and>
    allowsMove h w' \<and> save h w' = Inr ws' \<and> pendingState s w' outputName = None \<longrightarrow>
      pendingState (fst (onOutputDisconnected h outputName monitorRect t s)) w' outputName =
        Some \<lparr>windowState = toRelative monitorRect ws', time = t\<rparr>) \<and>
   (pendingState s w' outputName = Some e \<longrightarrow>
      pendingState (fst (onMonitorLoaded h outputName monitorRect s)) w' outputName = None) \<and>
   (reachable s \<and> pendingState s w' outputName = Some e \<longrightarrow>
      pendingState (fst (onMonitorLoaded h outputName monitorRect s)) w' k' =
        (case pendingState s w' k' of
           None \<Rightarrow> None
         | Some e' \<Rightarrow> if k' \<noteq> outputName \<and> time e' < time e then Some e' else None)) \<and>
   fst (onMonitorLoaded (h\<lparr>restore := rs\<rparr>) outputName monitorRect s) =
     fst (onMonitorLoaded h outputName monitorRect s) \<and>
   (pendingState s w' outputName = Some e \<longrightarrow>
      (w', toAbsolute monitorRect (windowState e), monitorRect)
        \<in> set (restoreCalls (snd (onMonitorLoaded h outputName monitorRect s))))"
  by (simp add: onOutputDisconnected_failed onOutputDisconnected_mdw_save
        onOutputDisconnected_stranded onOutputDisconnected_captures onMonitorLoaded_restore
        onMonitorLoaded_restore_member onMonitorLoaded_matched_removed onMonitorLoaded_pending)

theorem C2_witness:
  "save (sampleHost [(1, 10, 10), (2, 20, 20)] [1]) 1 = Inl CaptureError \<and>
   map_of (windowsSavedStates
      (fst (onOutputDisconnected (sampleHost [(1, 10, 10), (2, 20, 20)] [1]) ''A'' (rectAt 0 0) 2
              bothSaved))) 1 =
     Some [(''B'', \<lparr>windowState = \<lparr>ws_x = Finite 10, ws_y = Finite 10, ws_rest = 1\<rparr>, time = 1\<rparr>)] \<and>
   map_of (windowsSavedStates bothSaved) 1 =
     Some [(''B'', \<lparr>windowState = \<lparr>ws_x = Finite 10, ws_y = Finite 10, ws_rest = 1\<rparr>, time = 1\<rparr>)] \<and>
   stranded (fst (onOutputDisconnected (sampleHost [(1, 10, 10), (2, 20, 20)] [1]) ''A''
                    (rectAt 0 0) 2 bothSaved)) ''A'' = Some {1, 2} \<and>
   pendingState (fst (onOutputDisconnected (sampleHost [(1, 10, 10), (2, 20, 20)] [1]) ''A''
                        (rectAt 0 0) 2 bothSaved)) 2 ''A'' =
     Some \<lparr>windowState = \<lparr>ws_x = Finite 20, ws_y = Finite 20, ws_rest = 2\<rparr>, time = 2\<rparr> \<and>
   reachable bothSaved \<and>
   pendingState bothSaved 1 ''B'' =
     Some \<lparr>windowState = \<lparr>ws_x = Finite 10, ws_y = Finite 10, ws_rest = 1\<rparr>, time = 1\<rparr> \<and>
   restore (sampleHost [(1, 10, 10), (2, 20, 20)] [1]) 1 \<lparr>ws_x = Finite 10, ws_y = Finite 10, ws_rest = 1\<rparr>
     (rectAt 0 0) = Inl RestoreError \<and>
   pendingState (fst (onMonitorLoaded (sampleHost [(1, 10, 10), (2, 20, 20)] [1]) ''B''
                        (rectAt 0 0) bothSaved)) 1 ''B'' = None \<and>
   fst (onMonitorLoaded ((sampleHost [(1, 10, 10), (2, 20, 20)] [1])\<lparr>restore := \<lambda>w ws r. Inr ()\<rparr>)
          ''B'' (rectAt 0 0) bothSaved) =
     fst (onMonitorLoaded (sampleHost [(1, 10, 10), (2, 20, 20)] [1]) ''B'' (rectAt 0 0) bothSaved) \<and>
   (2, \<lparr>ws_x = Finite 20, ws_y = Finite 20, ws_rest = 2\<rparr>, rectAt 0 0)
     \<in> set (restoreCalls (snd (onMonitorLoaded (sampleHost [(1, 10, 10), (2, 20, 20)] [1]) ''B''
                                  (rectAt 0 0) bothSaved)))"
proof -
  let ?h = "sampleHost [(1, 10, 10), (2, 20, 20)] [1]"
  let ?e1 = "\<lparr>windowState = \<lparr>ws_x = Finite 10, ws_y = Finite 10, ws_rest = 1\<rparr>, time = 1\<rparr>"
  let ?e2 = "\<lparr>windowState = \<lparr>ws_x = Finite 20, ws_y = Finite 20, ws_rest = 2\<rparr>, time = 1\<rparr>"
  have f: "save ?h 1 = Inl CaptureError"
    by (simp add: sampleHost_def)
  have b: "map_of (windowsSavedStates bothSaved) 1 = Some [(''B'', ?e1)]"
    by (simp add: scenario)
  have c: "2 \<in> set (list_windows ?h) \<and> isInside ?h 2 (rectAt 0 0) \<and>
     rememberState (settings bothSaved) \<and> allowsMove ?h 2 \<and>
     save ?h 2 = Inr \<lparr>ws_x = Finite 20, ws_y = Finite 20, ws_rest = 2\<rparr> \<and> pendingState bothSaved 2 ''A'' = None"
    by (simp add: scenario)
  have d: "pendingState bothSaved 2 ''B'' = Some ?e2"
    by (simp add: scenario)
  have d1: "pendingState bothSaved 1 ''B'' = Some ?e1"
    by (simp add: scenario)
  have r: "reachable bothSaved"
    unfolding bothSaved_def by (intro reachable.intros)
  have g: "restore ?h 1 \<lparr>ws_x = Finite 10, ws_y = Finite 10, ws_rest = 1\<rparr> (rectAt 0 0) = Inl RestoreError"
    by (simp add: sampleHost_def)
  have st: "stranded (fst (onOutputDisconnected ?h ''A'' (rectAt 0 0) 2 bothSaved)) ''A'' = Some {1, 2}"
    by (simp add: scenario)
  have rel: "toRelative (rectAt 0 0) \<lparr>ws_x = Finite 20, ws_y = Finite 20, ws_rest = 2\<rparr> =
               \<lparr>ws_x = Finite 20, ws_y = Finite 20, ws_rest = 2\<rparr>"
    by (simp add: scenario)
  have ab: "toAbsolute (rectAt 0 0) \<lparr>ws_x = Finite 20, ws_y = Finite 20, ws_rest = 2\<rparr> =
               \<lparr>ws_x = Finite 20, ws_y = Finite 20, ws_rest = 2\<rparr>"
    by (simp add: scenario)
  from C2_failed_codec_call[where h = ?h and w = 1 and err = CaptureError and outputName = "''A''"
      and monitorRect = "rectAt 0 0" and t = 2 and s = bothSaved and w' = 2
      and ws' = "\<lparr>ws_x = Finite 20, ws_y = Finite 20, ws_rest = 2\<rparr>"]
  have 1: "map_of (windowsSavedStates (fst (onOutputDisconnected ?h ''A'' (rectAt 0 0) 2 bothSaved))) 1 =
             map_of (windowsSavedStates bothSaved) 1"
    and 2: "pendingState (fst (onOutputDisconnected ?h ''A'' (rectAt 0 0) 2 bothSaved)) 2 ''A'' =
              Some \<lparr>windowState = toRelative (rectAt 0 0) \<lparr>ws_x = Finite 20, ws_y = Finite 20, ws_rest = 2\<rparr>, time = 2\<rparr>"
    using f c by simp_all
  from C2_failed_codec_call[where h = ?h and outputName = "''B''" and monitorRect = "rectAt 0 0"
      and s = bothSaved and w' = 2 and rs = "\<lambda>w ws r. Inr ()" and e = ?e2]
  have 3: "fst (onMonitorLoaded (?h\<lparr>restore := \<lambda>w ws r. Inr ()\<rparr>) ''B'' (rectAt 0 0) bothSaved) =
           fst (onMonitorLoaded ?h ''B'' (rectAt 0 0) bothSaved)"
    and 4: "(2, toAbsolute (rectAt 0 0) \<lparr>ws_x = Finite 20, ws_y = Finite 20, ws_rest = 2\<rparr>, rectAt 0 0)
     \<in> set (restoreCalls (snd (onMonitorLoaded ?h ''B'' (rectAt 0 0) bothSaved)))"
    using d by simp_all
  from C2_failed_codec_call[where h = ?h and outputName = "''B''" and monitorRect = "rectAt 0 0"
      and s = bothSaved and w' = 1 and e = ?e1]
  have 5: "pendingState (fst (onMonitorLoaded ?h ''B'' (rectAt 0 0) bothSaved)) 1 ''B'' = None"
    using d1 by simp
  from f b g st r d1 1 2 3 4 5 show ?thesis
    by (simp add: rel ab)
qed

subsection \<open>C3: conflict resolution on monitor-loaded\<close>

text \<open>
  Claim C3. In a reachable state, when a window has a pending entry for the output that
  is loaded: that entry is removed; every other entry of the window whose time is not
  before that entry's time is removed as well (the older ones stay); and
  \<^verbatim>\<open>windowSaver.restore\<close> is called exactly once for the window, with the matched entry's
  state in absolute coordinates, hence never for another removed entry.
\<close>

theorem C3_conflict_resolution:
  assumes "reachable s" and "pendingState s w k = Some e"
  shows "pendingState (fst (onMonitorLoaded h k r s)) w k = None \<and>
         (\<forall>k' e'. pendingState s w k' = Some e' \<and> time e' \<ge> time e \<longrightarrow>
            pendingState (fst (onMonitorLoaded h k r s)) w k' = None) \<and>
         (\<forall>k' e'. pendingState s w k' = Some e' \<and> k' \<noteq> k \<and> time e' < time e \<longrightarrow>
            pendingState (fst (onMonitorLoaded h k r s)) w k' = Some e') \<and>
         filter (\<lambda>c. fst c = w) (restoreCalls (snd (onMonitorLoaded h k r s))) =
           [(w, toAbsolute r (windowState e), r)]"
  using assms
  by (auto simp: onMonitorLoaded_pending onMonitorLoaded_restoreCalls_window)

theorem C3_witness:
  "reachable twoSaves \<and>
   pendingState twoSaves 7 ''A'' = Some \<lparr>windowState = \<lparr>ws_x = Finite 100, ws_y = Finite 50, ws_rest = 7\<rparr>, time = 1\<rparr> \<and>
   pendingState twoSaves 7 ''B'' = Some \<lparr>windowState = \<lparr>ws_x = Finite 100, ws_y = Finite 50, ws_rest = 7\<rparr>, time = 2\<rparr> \<and>
   pendingState (fst (onMonitorLoaded (sampleHost [(7, 100, 50)] []) ''A'' (rectAt 1920 0) twoSaves)) 7 ''A'' = None \<and>
   pendingState (fst (onMonitorLoaded (sampleHost [(7, 100, 50)] []) ''A'' (rectAt 1920 0) twoSaves)) 7 ''B'' = None \<and>
   filter (\<lambda>c. fst c = 7)
     (restoreCalls (snd (onMonitorLoaded (sampleHost [(7, 100, 50)] []) ''A'' (rectAt 1920 0) twoSaves))) =
     [(7, \<lparr>ws_x = Finite 2020, ws_y = Finite 50, ws_rest = 7\<rparr>, rectAt 1920 0)]"
proof -
  have r: "reachable twoSaves"
    unfolding twoSaves_def by (intro reachable.intros)
  have a: "pendingState twoSaves 7 ''A'' =
             Some \<lparr>windowState = \<lparr>ws_x = Finite 100, ws_y = Finite 50, ws_rest = 7\<rparr>, time = 1\<rparr>"
    by (simp add: scenario)
  have b: "pendingState twoSaves 7 ''B'' =
             Some \<lparr>windowState = \<lparr>ws_x = Finite 100, ws_y = Finite 50, ws_rest = 7\<rparr>, time = 2\<rparr>"
    by (simp add: scenario)
  have c: "toAbsolute (rectAt 1920 0) \<lparr>ws_x = Finite 100, ws_y = Finite 50, ws_rest = 7\<rparr> =
             \<lparr>ws_x = Finite 2020, ws_y = Finite 50, ws_rest = 7\<rparr>"
    by (simp add: scenario)
  from C3_conflict_resolution[OF r a, of "sampleHost [(7, 100, 50)] []" "rectAt 1920 0"] r a b c
  show ?thesis by simp
qed

subsection \<open>C4: the first capture wins\<close>

text \<open>
  Claim C4. When a window has a pending entry for an output, the disconnect handler of
  the same output leaves that entry as it is, state and time: the new capture is
  discarded.
\<close>

theorem C4_first_capture_wins:
  "pendingState s w outputName = Some e \<Longrightarrow>
     pendingState (fst (onOutputDisconnected h outputName monitorRect t s)) w outputName = Some e"
  by (rule onOutputDisconnected_keeps)

theorem C4_witness:
  "pendingState hdmiSaved 7 ''HDMI-1'' =
     Some \<lparr>windowState = \<lparr>ws_x = Finite 100, ws_y = Finite 50, ws_rest = 7\<rparr>, time = 1000\<rparr> \<and>
   save (sampleHost [(7, 300, 400)] []) 7 = Inr \<lparr>ws_x = Finite 300, ws_y = Finite 400, ws_rest = 7\<rparr> \<and>
   pendingState (fst (onOutputDisconnected (sampleHost [(7, 300, 400)] []) ''HDMI-1''
                        (rectAt 0 0) 2000 hdmiSaved)) 7 ''HDMI-1'' =
     Some \<lparr>windowState = \<lparr>ws_x = Finite 100, ws_y = Finite 50, ws_rest = 7\<rparr>, time = 1000\<rparr>"
proof -
  have a: "pendingState hdmiSaved 7 ''HDMI-1'' =
     Some \<lparr>windowState = \<lparr>ws_x = Finite 100, ws_y = Finite 50, ws_rest = 7\<rparr>, time = 1000\<rparr>"
    by (simp add: scenario)
  have b: "save (sampleHost [(7, 300, 400)] []) 7 = Inr \<lparr>ws_x = Finite 300, ws_y = Finite 400, ws_rest = 7\<rparr>"
    by (simp add: sampleHost_def)
  from C4_first_capture_wins[OF a, of "sampleHost [(7, 300, 400)] []" "rectAt 0 0" 2000] a b
  show ?thesis by simp
qed

subsection \<open>C5: coordinates\<close>

text \<open>
  Claim C5 says that making a position relative to a rectangle and absolute again gives
  the position back exactly, for every rectangle and every point. The two operations
  round to a double each, and the claim fails: with the rectangle at \<open>x = -0.7\<close> the point
  \<open>x = 0.1\<close>, which is inside, comes back as \<open>0.09999999999999998\<close> (the fractions below
  are these doubles), and with the rectangle at \<open>x = -1\<close> the point \<open>x = 2^53\<close> comes back
  as \<open>2^53 - 1\<close>.
\<close>

theorem C5_counterexample:
  "(isDouble (Finite (3602879701896397 / 36028797018963968)) \<and>
   isDouble (Finite (- (3152519739159347 / 4503599627370496))) \<and>
   insideRect (3602879701896397 / 36028797018963968) 0
     \<lparr>rect_x = Finite (- (3152519739159347 / 4503599627370496)), rect_y = Finite 0,
       rect_width = Finite 1920, rect_height = Finite 1080\<rparr> \<and>
   toAbsolute
     \<lparr>rect_x = Finite (- (3152519739159347 / 4503599627370496)), rect_y = Finite 0,
       rect_width = Finite 1920, rect_height = Finite 1080\<rparr>
     (toRelative
        \<lparr>rect_x = Finite (- (3152519739159347 / 4503599627370496)), rect_y = Finite 0,
          rect_width = Finite 1920, rect_height = Finite 1080\<rparr>
        \<lparr>ws_x = Finite (3602879701896397 / 36028797018963968), ws_y = Finite 0, ws_rest = 0\<rparr>) =
     \<lparr>ws_x = Finite (900719925474099 / 9007199254740992), ws_y = Finite 0, ws_rest = 0\<rparr>) \<and>
   (isDouble (Finite 9007199254740992) \<and> isDouble (Finite (- 1)) \<and>
   toRelative
     \<lparr>rect_x = Finite (- 1), rect_y = Finite 0, rect_width = Finite 1920, rect_height = Finite 1080\<rparr>
     \<lparr>ws_x = Finite 9007199254740992, ws_y = Finite 0, ws_rest = 0\<rparr> =
     \<lparr>ws_x = Finite 9007199254740992, ws_y = Finite 0, ws_rest = 0\<rparr> \<and>
   toAbsolute
     \<lparr>rect_x = Finite (- 1), rect_y = Finite 0, rect_width = Finite 1920, rect_height = Finite 1080\<rparr>
     (toRelative
        \<lparr>rect_x = Finite (- 1), rect_y = Finite 0, rect_width = Finite 1920, rect_height = Finite 1080\<rparr>
        \<lparr>ws_x = Finite 9007199254740992, ws_y = Finite 0, ws_rest = 0\<rparr>) =
     \<lparr>ws_x = Finite 9007199254740991, ws_y = Finite 0, ws_rest = 0\<rparr> \<and>
   toAbsolute
     \<lparr>rect_x = Finite (- 1), rect_y = Finite 0, rect_width = Finite 1920, rect_height = Finite 1080\<rparr>
     (toRelative
        \<lparr>rect_x = Finite (- 1), rect_y = Finite 0, rect_width = Finite 1920, rect_height = Finite 1080\<rparr>
        \<lparr>ws_x = Finite 9007199254740992, ws_y = Finite 0, ws_rest = 0\<rparr>) \<noteq>
     \<lparr>ws_x = Finite 9007199254740992, ws_y = Finite 0, ws_rest = 0\<rparr>)"
proof -
  have small: "isDouble (Finite (3602879701896397 / 36028797018963968)) \<and>
   isDouble (Finite (- (3152519739159347 / 4503599627370496))) \<and>
   insideRect (3602879701896397 / 36028797018963968) 0
     \<lparr>rect_x = Finite (- (3152519739159347 / 4503599627370496)), rect_y = Finite 0,
       rect_width = Finite 1920, rect_height = Finite 1080\<rparr> \<and>
   toAbsolute
     \<lparr>rect_x = Finite (- (3152519739159347 / 4503599627370496)), rect_y = Finite 0,
       rect_width = Finite 1920, rect_height = Finite 1080\<rparr>
     (toRelative
        \<lparr>rect_x = Finite (- (3152519739159347 / 4503599627370496)), rect_y = Finite 0,
          rect_width = Finite 1920, rect_height = Finite 1080\<rparr>
        \<lparr>ws_x = Finite (3602879701896397 / 36028797018963968), ws_y = Finite 0, ws_rest = 0\<rparr>) =
     \<lparr>ws_x = Finite (900719925474099 / 9007199254740992), ws_y = Finite 0, ws_rest = 0\<rparr>"
    by (simp add: isDouble_def insideRect_def toRelative_def toAbsolute_def js_sub_def js_neg_def
        tenth_is_double seven_tenths_is_double tenth_plus_seven_tenths back_minus_seven_tenths
        roundToDouble_zero)
  have m1: "roundToDouble (- 1) = Finite (- 1)"
    using roundToDouble_int[of "- 1"] by simp
  have big: "roundToDouble 9007199254740992 = Finite 9007199254740992"
    by (simp add: roundToDouble_numeral)
  have pred: "roundToDouble 9007199254740991 = Finite 9007199254740991"
    by (simp add: roundToDouble_numeral)
  have large: "isDouble (Finite 9007199254740992) \<and> isDouble (Finite (- 1)) \<and>
   toRelative
     \<lparr>rect_x = Finite (- 1), rect_y = Finite 0, rect_width = Finite 1920, rect_height = Finite 1080\<rparr>
     \<lparr>ws_x = Finite 9007199254740992, ws_y = Finite 0, ws_rest = 0\<rparr> =
     \<lparr>ws_x = Finite 9007199254740992, ws_y = Finite 0, ws_rest = 0\<rparr> \<and>
   toAbsolute
     \<lparr>rect_x = Finite (- 1), rect_y = Finite 0, rect_width = Finite 1920, rect_height = Finite 1080\<rparr>
     (toRelative
        \<lparr>rect_x = Finite (- 1), rect_y = Finite 0, rect_width = Finite 1920, rect_height = Finite 1080\<rparr>
        \<lparr>ws_x = Finite 9007199254740992, ws_y = Finite 0, ws_rest = 0\<rparr>) =
     \<lparr>ws_x = Finite 9007199254740991, ws_y = Finite 0, ws_rest = 0\<rparr> \<and>
   toAbsolute
     \<lparr>rect_x = Finite (- 1), rect_y = Finite 0, rect_width = Finite 1920, rect_height = Finite 1080\<rparr>
     (toRelative
        \<lparr>rect_x = Finite (- 1), rect_y = Finite 0, rect_width = Finite 1920, rect_height = Finite 1080\<rparr>
        \<lparr>ws_x = Finite 9007199254740992, ws_y = Finite 0, ws_rest = 0\<rparr>) \<noteq>
     \<lparr>ws_x = Finite 9007199254740992, ws_y = Finite 0, ws_rest = 0\<rparr>"
    by (simp add: isDouble_def toRelative_def toAbsolute_def js_sub_def js_neg_def
          m1 big pred roundToDouble_2_53_plus_1 roundToDouble_zero)
  from small large show ?thesis by (rule conjI)
qed

text \<open>
  Claim C5, amended to whole pixels. When the coordinates of the point and of the
  rectangles' origins are integers, and the point, its relative position and the restored
  position are at most \<open>2^53\<close> in absolute value: making the position relative to \<open>R\<close> and
  absolute again with \<open>R\<close> gives the position back; with another rectangle \<open>R'\<close> it gives
  \<open>(x - R.x + R'.x, y - R.y + R'.y)\<close>. The handlers do exactly that: a window captured by
  the disconnect handler at \<open>R\<close> is stored relative to \<open>R\<close>, and the load handler at \<open>R'\<close>
  calls \<^verbatim>\<open>restore\<close> with the position moved by \<open>R' - R\<close>.
\<close>

theorem C5_coordinate_round_trip:
  assumes "ws_x ws = Finite (of_int a)" and "ws_y ws = Finite (of_int b)"
    and "rect_x R = Finite (of_int rx)" and "rect_y R = Finite (of_int ry)"
    and "rect_x R' = Finite (of_int rx')" and "rect_y R' = Finite (of_int ry')"
    and "\<bar>a\<bar> \<le> 2 ^ 53" and "\<bar>b\<bar> \<le> 2 ^ 53"
    and "\<bar>a - rx\<bar> \<le> 2 ^ 53" and "\<bar>b - ry\<bar> \<le> 2 ^ 53"
    and "\<bar>a - rx + rx'\<bar> \<le> 2 ^ 53" and "\<bar>b - ry + ry'\<bar> \<le> 2 ^ 53"
  shows "toAbsolute R (toRelative R ws) = ws \<and>
   toAbsolute R' (toRelative R ws) =
     ws\<lparr>ws_x := Finite (of_int (a - rx + rx')), ws_y := Finite (of_int (b - ry + ry'))\<rparr> \<and>
   (w \<in> set (list_windows h) \<and> isInside h w R \<and> rememberState (settings s) \<and>
    allowsMove h w \<and> save h w = Inr ws \<and> pendingState s w outputName = None \<longrightarrow>
      pendingState (fst (onOutputDisconnected h outputName R t s)) w outputName =
        Some \<lparr>windowState = ws\<lparr>ws_x := Finite (of_int (a - rx)),
                                 ws_y := Finite (of_int (b - ry))\<rparr>,
              time = t\<rparr> \<and>
      (w, ws\<lparr>ws_x := Finite (of_int (a - rx + rx')), ws_y := Finite (of_int (b - ry + ry'))\<rparr>, R')
        \<in> set (restoreCalls (snd (onMonitorLoaded h' outputName R'
                   (fst (onOutputDisconnected h outputName R t s))))))"
proof (intro conjI impI)
  have "toAbsolute R (toRelative R ws) =
          ws\<lparr>ws_x := Finite (of_int (a - rx + rx)), ws_y := Finite (of_int (b - ry + ry))\<rparr>"
    using assms by (intro round_trip_int) simp_all
  then show "toAbsolute R (toRelative R ws) = ws"
    using assms(1,2) by simp
  have rel: "toRelative R ws =
      ws\<lparr>ws_x := Finite (of_int (a - rx)), ws_y := Finite (of_int (b - ry))\<rparr>"
    using assms by (intro toRelative_int)
  show abs: "toAbsolute R' (toRelative R ws) =
     ws\<lparr>ws_x := Finite (of_int (a - rx + rx')), ws_y := Finite (of_int (b - ry + ry'))\<rparr>"
    using assms by (intro round_trip_int)
  assume a: "w \<in> set (list_windows h) \<and> isInside h w R \<and> rememberState (settings s) \<and>
    allowsMove h w \<and> save h w = Inr ws \<and> pendingState s w outputName = None"
  then have p: "pendingState (fst (onOutputDisconnected h outputName R t s)) w outputName =
      Some \<lparr>windowState = toRelative R ws, time = t\<rparr>"
    by (simp add: onOutputDisconnected_captures)
  then show "pendingState (fst (onOutputDisconnected h outputName R t s)) w outputName =
        Some \<lparr>windowState = ws\<lparr>ws_x := Finite (of_int (a - rx)),
                                 ws_y := Finite (of_int (b - ry))\<rparr>,
              time = t\<rparr>"
    by (simp only: rel)
  from onMonitorLoaded_restore_member[OF p, of R' h']
  show "(w, ws\<lparr>ws_x := Finite (of_int (a - rx + rx')), ws_y := Finite (of_int (b - ry + ry'))\<rparr>, R')
        \<in> set (restoreCalls (snd (onMonitorLoaded h' outputName R'
                   (fst (onOutputDisconnected h outputName R t s)))))"
    by (simp add: abs)
qed

theorem C5_witness:
  "7 \<in> set (list_windows (sampleHost [(7, 100, 50)] [])) \<and>
   isInside (sampleHost [(7, 100, 50)] []) 7 (rectAt 0 0) \<and>
   rememberState (settings (enable defaultSettings)) \<and>
   allowsMove (sampleHost [(7, 100, 50)] []) 7 \<and>
   save (sampleHost [(7, 100, 50)] []) 7 = Inr \<lparr>ws_x = Finite 100, ws_y = Finite 50, ws_rest = 7\<rparr> \<and>
   pendingState (enable defaultSettings) 7 ''HDMI-1'' = None \<and>
   toAbsolute (rectAt 0 0)
     (toRelative (rectAt 0 0) \<lparr>ws_x = Finite 100, ws_y = Finite 50, ws_rest = 7\<rparr>) =
     \<lparr>ws_x = Finite 100, ws_y = Finite 50, ws_rest = 7\<rparr> \<and>
   toAbsolute (rectAt 1920 0)
     (toRelative (rectAt 0 0) \<lparr>ws_x = Finite 100, ws_y = Finite 50, ws_rest = 7\<rparr>) =
     \<lparr>ws_x = Finite 2020, ws_y = Finite 50, ws_rest = 7\<rparr> \<and>
   pendingState (fst (onOutputDisconnected (sampleHost [(7, 100, 50)] []) ''HDMI-1'' (rectAt 0 0)
                        1000 (enable defaultSettings))) 7 ''HDMI-1'' =
     Some \<lparr>windowState = \<lparr>ws_x = Finite 100, ws_y = Finite 50, ws_rest = 7\<rparr>, time = 1000\<rparr> \<and>
   (7, \<lparr>ws_x = Finite 2020, ws_y = Finite 50, ws_rest = 7\<rparr>, rectAt 1920 0)
     \<in> set (restoreCalls (snd (onMonitorLoaded (sampleHost [(7, 100, 50)] []) ''HDMI-1''
                (rectAt 1920 0)
                (fst (onOutputDisconnected (sampleHost [(7, 100, 50)] []) ''HDMI-1'' (rectAt 0 0)
                        1000 (enable defaultSettings))))))"
proof -
  have a: "7 \<in> set (list_windows (sampleHost [(7, 100, 50)] [])) \<and>
    isInside (sampleHost [(7, 100, 50)] []) 7 (rectAt 0 0) \<and>
    rememberState (settings (enable defaultSettings)) \<and>
    allowsMove (sampleHost [(7, 100, 50)] []) 7 \<and>
    save (sampleHost [(7, 100, 50)] []) 7 = Inr \<lparr>ws_x = Finite 100, ws_y = Finite 50, ws_rest = 7\<rparr> \<and>
    pendingState (enable defaultSettings) 7 ''HDMI-1'' = None"
    by (simp add: sampleHost_def insideRect_def rectAt_def enable_def defaultSettings_def
          pendingState_def)
  from C5_coordinate_round_trip[of "\<lparr>ws_x = Finite 100, ws_y = Finite 50, ws_rest = 7\<rparr>"
      100 50 "rectAt 0 0" 0 0 "rectAt 1920 0" 1920 0 7 "sampleHost [(7, 100, 50)] []"
      "enable defaultSettings" "''HDMI-1''" 1000 "sampleHost [(7, 100, 50)] []"] a
  show ?thesis by (simp add: rectAt_def)
qed

subsection \<open>C6: the stranded set\<close>

text \<open>
  Claim C6. After the disconnect handler, the stranded set of the output holds exactly
  the listed windows that are inside the rectangle, whatever the set held before, whether
  or not remembering is enabled, the window may be moved, or the capture succeeded.
\<close>

theorem C6_stranded_set:
  "stranded (fst (onOutputDisconnected h outputName monitorRect t s)) outputName =
     Some {w \<in> set (list_windows h). isInside h w monitorRect}"
  by (simp add: onOutputDisconnected_stranded)

subsection \<open>C7: no minimize after a connect\<close>


subsection \<open>C8: window-removed\<close>

text \<open>
  Claim C8. After the window-removed handler the window has no entry in
  \<^verbatim>\<open>_windowsSavedStates\<close> and is in no stranded set; the entries of the other windows, the
  other members of every stranded set, the outputs that have a stranded set and the
  settings are unchanged.
\<close>

theorem C8_window_removed:
  "map_of (windowsSavedStates (onWindowRemoved w s)) w = None \<and>
   (\<forall>k. pendingState (onWindowRemoved w s) w k = None) \<and>
   (\<forall>k dw. (k, dw) \<in> set (monitorDisconnectedWindows (onWindowRemoved w s)) \<longrightarrow> w \<notin> set dw) \<and>
   (\<forall>w'. w' \<noteq> w \<longrightarrow>
      map_of (windowsSavedStates (onWindowRemoved w s)) w' = map_of (windowsSavedStates s) w') \<and>
   (\<forall>k. stranded (onWindowRemoved w s) k = map_option (\<lambda>S. S - {w}) (stranded s k)) \<and>
   map fst (monitorDisconnectedWindows (onWindowRemoved w s)) =
     map fst (monitorDisconnectedWindows s) \<and>
   settings (onWindowRemoved w s) = settings s"
proof -
  have 1: "map_of (windowsSavedStates (onWindowRemoved w s)) w = None"
    by (simp add: onWindowRemoved_def delete_conv')
  then have 2: "\<forall>k. pendingState (onWindowRemoved w s) w k = None"
    by (simp add: pendingState_def)
  have 3: "\<forall>k dw. (k, dw) \<in> set (monitorDisconnectedWindows (onWindowRemoved w s)) \<longrightarrow> w \<notin> set dw"
    by (auto simp: onWindowRemoved_def Set_delete_def)
  have 4: "\<forall>w'. w' \<noteq> w \<longrightarrow>
      map_of (windowsSavedStates (onWindowRemoved w s)) w' = map_of (windowsSavedStates s) w'"
    by (simp add: onWindowRemoved_def delete_conv')
  have 5: "map fst (monitorDisconnectedWindows (onWindowRemoved w s)) =
     map fst (monitorDisconnectedWindows s)"
    by (simp add: onWindowRemoved_def split_def comp_def)
  have 6: "settings (onWindowRemoved w s) = settings s"
    by (simp add: onWindowRemoved_def)
  from 1 2 3 4 5 6 show ?thesis by (simp only: onWindowRemoved_stranded simp_thms)
qed

theorem C8_witness:
  "pendingState strandedTwice 7 ''A'' =
     Some \<lparr>windowState = \<lparr>ws_x = Finite 100, ws_y = Finite 50, ws_rest = 7\<rparr>, time = 1\<rparr> \<and>
   pendingState strandedTwice 7 ''B'' =
     Some \<lparr>windowState = \<lparr>ws_x = Finite 100, ws_y = Finite 50, ws_rest = 7\<rparr>, time = 2\<rparr> \<and>
   stranded strandedTwice ''A'' = Some {7, 8} \<and>
   stranded strandedTwice ''B'' = Some {7, 8} \<and>
   map_of (windowsSavedStates (onWindowRemoved 7 strandedTwice)) 7 = None \<and>
   pendingState (onWindowRemoved 7 strandedTwice) 7 ''A'' = None \<and>
   pendingState (onWindowRemoved 7 strandedTwice) 7 ''B'' = None \<and>
   stranded (onWindowRemoved 7 strandedTwice) ''A'' = Some {8} \<and>
   stranded (onWindowRemoved 7 strandedTwice) ''B'' = Some {8} \<and>
   map_of (windowsSavedStates (onWindowRemoved 7 strandedTwice)) 8 =
     Some [(''A'', \<lparr>windowState = \<lparr>ws_x = Finite 200, ws_y = Finite 60, ws_rest = 8\<rparr>, time = 1\<rparr>),
           (''B'', \<lparr>windowState = \<lparr>ws_x = Finite 200, ws_y = Finite 60, ws_rest = 8\<rparr>, time = 2\<rparr>)]"
proof -
  have a: "pendingState strandedTwice 7 ''A'' =
     Some \<lparr>windowState = \<lparr>ws_x = Finite 100, ws_y = Finite 50, ws_rest = 7\<rparr>, time = 1\<rparr>"
    by (simp add: scenario)
  have b: "pendingState strandedTwice 7 ''B'' =
     Some \<lparr>windowState = \<lparr>ws_x = Finite 100, ws_y = Finite 50, ws_rest = 7\<rparr>, time = 2\<rparr>"
    by (simp add: scenario)
  have c: "stranded strandedTwice ''A'' = Some {7, 8}" by (simp add: scenario)
  have d: "stranded strandedTwice ''B'' = Some {7, 8}" by (simp add: scenario)
  have e: "map_of (windowsSavedStates strandedTwice) 8 =
     Some [(''A'', \<lparr>windowState = \<lparr>ws_x = Finite 200, ws_y = Finite 60, ws_rest = 8\<rparr>, time = 1\<rparr>),
           (''B'', \<lparr>windowState = \<lparr>ws_x = Finite 200, ws_y = Finite 60, ws_rest = 8\<rparr>, time = 2\<rparr>)]"
    by (simp add: scenario)
  from C8_window_removed[of 7 strandedTwice] a b c d e show ?thesis by simp
qed

subsection \<open>C9: the setting rememberState\<close>

text \<open>
  Claim C9. When the setting \<^verbatim>\<open>rememberState\<close> changes to false, \<^verbatim>\<open>_windowsSavedStates\<close>
  becomes empty and \<^verbatim>\<open>_monitorDisconnectedWindows\<close> is unchanged; when it changes to true,
  neither map is modified.
\<close>

theorem C9_rememberState_toggle:
  "windowsSavedStates (fst (setRememberState False s)) = [] \<and>
   monitorDisconnectedWindows (fst (setRememberState False s)) = monitorDisconnectedWindows s \<and>
   windowsSavedStates (fst (setRememberState True s)) = windowsSavedStates s \<and>
   monitorDisconnectedWindows (fst (setRememberState True s)) = monitorDisconnectedWindows s"
  by (simp add: setRememberState_def onRememberStateChange_def)

subsection \<open>C10: one timestamp per event\<close>

text \<open>
  Claim C10. Every pending entry that the disconnect handler adds is for the handler's
  output and carries the one time read at line 73. In a reachable state, when a window has
  entries of equal time for two outputs, loading either output removes both.
\<close>

theorem C10_same_timestamp:
  "(pendingState (fst (onOutputDisconnected h outputName monitorRect t s)) w k' = Some e \<longrightarrow>
      pendingState s w k' = Some e \<or> (k' = outputName \<and> time e = t)) \<and>
   (reachable s \<and> pendingState s w outputName = Some e1 \<and> pendingState s w k' = Some e2 \<and>
    time e2 = time e1 \<longrightarrow>
      pendingState (fst (onMonitorLoaded h' outputName r s)) w outputName = None \<and>
      pendingState (fst (onMonitorLoaded h' outputName r s)) w k' = None)"
  by (auto simp: onMonitorLoaded_pending dest: onOutputDisconnected_new)

theorem C10_witness:
  "reachable sameTimeSaves \<and>
   pendingState sameTimeSaves 7 ''A'' =
     Some \<lparr>windowState = \<lparr>ws_x = Finite 100, ws_y = Finite 50, ws_rest = 7\<rparr>, time = 5\<rparr> \<and>
   pendingState sameTimeSaves 7 ''B'' =
     Some \<lparr>windowState = \<lparr>ws_x = Finite 100, ws_y = Finite 50, ws_rest = 7\<rparr>, time = 5\<rparr> \<and>
   pendingState (fst (onMonitorLoaded (sampleHost [(7, 100, 50)] []) ''B'' (rectAt 0 0)
                        sameTimeSaves)) 7 ''B'' = None \<and>
   pendingState (fst (onMonitorLoaded (sampleHost [(7, 100, 50)] []) ''B'' (rectAt 0 0)
                        sameTimeSaves)) 7 ''A'' = None \<and>
   pendingState (fst (onMonitorLoaded (sampleHost [(7, 100, 50)] []) ''A'' (rectAt 0 0)
                        sameTimeSaves)) 7 ''B'' = None"
proof -
  have r: "reachable sameTimeSaves"
    unfolding sameTimeSaves_def by (intro reachable.intros)
  have a: "pendingState sameTimeSaves 7 ''A'' =
     Some \<lparr>windowState = \<lparr>ws_x = Finite 100, ws_y = Finite 50, ws_rest = 7\<rparr>, time = 5\<rparr>"
    by (simp add: scenario)
  have b: "pendingState sameTimeSaves 7 ''B'' =
     Some \<lparr>windowState = \<lparr>ws_x = Finite 100, ws_y = Finite 50, ws_rest = 7\<rparr>, time = 5\<rparr>"
    by (simp add: scenario)
  from C10_same_timestamp[where s = sameTimeSaves and w = 7 and outputName = "''A''"
         and k' = "''B''" and h' = "sampleHost [(7, 100, 50)] []" and r = "rectAt 0 0"
         and ?e1.0 = "\<lparr>windowState = \<lparr>ws_x = Finite 100, ws_y = Finite 50, ws_rest = 7\<rparr>, time = 5\<rparr>"
         and ?e2.0 = "\<lparr>windowState = \<lparr>ws_x = Finite 100, ws_y = Finite 50, ws_rest = 7\<rparr>, time = 5\<rparr>"]
       C10_same_timestamp[where s = sameTimeSaves and w = 7 and outputName = "''B''"
         and k' = "''A''" and h' = "sampleHost [(7, 100, 50)] []" and r = "rectAt 0 0"
         and ?e1.0 = "\<lparr>windowState = \<lparr>ws_x = Finite 100, ws_y = Finite 50, ws_rest = 7\<rparr>, time = 5\<rparr>"
         and ?e2.0 = "\<lparr>windowState = \<lparr>ws_x = Finite 100, ws_y = Finite 50, ws_rest = 7\<rparr>, time = 5\<rparr>"]
       r a b
  show ?thesis by simp
qed

end
